theory Spec2Isabelle
  imports Main "HOL-Library.Word" "HOL-Library.Monad_Syntax"
begin

unbundle bit_operations_syntax

section \<open>Data model of luscroll.c\<close>

text \<open>
  Pointers to \<open>LUMouse\<close> are addresses; address \<open>0\<close> is the C null pointer.
  Handles handed out by libevdev (\<open>struct libevdev*\<close>, \<open>struct libevdev_uinput*\<close>)
  are opaque numbers, \<open>0\<close> again being null.
\<close>

type_synonym addr = nat
type_synonym handle = nat

text \<open>The flag bits of \<open>LUMouse.state\<close> (the anonymous enum of the source).\<close>

definition MOUSE_STATE_NONE :: "32 word" where "MOUSE_STATE_NONE = 0"
definition MOUSE_STATE_DEAD :: "32 word" where "MOUSE_STATE_DEAD = push_bit 0 1"
definition MOUSE_STATE_SCROLLING :: "32 word" where "MOUSE_STATE_SCROLLING = push_bit 2 1"

text \<open>
  Event types and codes of \<open>linux/input-event-codes.h\<close> and the errno value the
  source names; the header is the kernel's, and the numbers are the ones it fixes.
\<close>

definition EV_KEY :: "16 word" where "EV_KEY = 0x01"
definition EV_REL :: "16 word" where "EV_REL = 0x02"
definition REL_Y :: "16 word" where "REL_Y = 0x01"
definition REL_WHEEL_HI_RES :: "16 word" where "REL_WHEEL_HI_RES = 0x0b"
definition BTN_MIDDLE :: "16 word" where "BTN_MIDDLE = 0x112"
definition EAGAIN :: int where "EAGAIN = 11"

definition DEV_INPUT :: string where "DEV_INPUT = ''/dev/input''"

text \<open>\<open>struct input_event\<close> without its timestamp, which the source never reads.\<close>

record input_event =
  evt_type :: "16 word"
  evt_code :: "16 word"
  evt_value :: "32 word"

record LUMouse =
  m_fd :: int
  m_dev :: handle
  m_dev_uinput :: handle
  m_state :: "32 word"
  m_next :: addr

text \<open>The text of each \<open>msg(...)\<close> call, with the values it formats.\<close>

datatype diagnostic =
    FailedGrab string int
  | FailedUinput string int
  | FailedOpen string int
  | Registered string string
  | ReadFailed int

text \<open>
  Every call the source makes into the operating system or into libevdev and that has an
  effect outside the process's own memory, in the order made. \<open>UinputDestroy\<close> stands for
  \<open>libevdev_uinput_destroy\<close>, the only way libevdev offers to destroy a sink.
\<close>

datatype os_call =
    Open string
  | NewFromFd int
  | UinputCreate handle
  | Grab handle
  | Ungrab handle
  | FreeDev handle
  | Close int
  | FreeMouse addr
  | UinputWrite handle "16 word" "16 word" "32 word"
  | UinputDestroy handle
  | Msg diagnostic

text \<open>
  The global \<open>g\<close>, together with the memory holding the \<open>LUMouse\<close> records (allocated
  addresses only) and the calls made so far.
\<close>

record gstate =
  mice :: addr
  stopped :: bool
  heap :: "addr \<rightharpoonup> LUMouse"
  trace :: "os_call list"

section \<open>Event translation (the body of the read loop in main)\<close>

text \<open>
  One pass through the body of the \<open>do ... while (true)\<close> loop after a successful read
  of \<open>evt\<close> from \<open>mouse\<close>. A result of \<open>None\<close> means the pointer is not valid.
  The value \<open>-evt.value * 2\<close> is computed in 32 bits.
\<close>

definition process_event :: "addr \<Rightarrow> input_event \<Rightarrow> gstate \<Rightarrow> gstate option" where
  "process_event mouse evt s =
     (case heap s mouse of
        None \<Rightarrow> None
      | Some mr \<Rightarrow>
          let st = (if evt_type evt = EV_KEY \<and> evt_code evt = BTN_MIDDLE
                    then (if evt_value evt \<noteq> 0
                          then m_state mr OR MOUSE_STATE_SCROLLING
                          else m_state mr AND NOT MOUSE_STATE_SCROLLING)
                    else m_state mr);
              h = (heap s)(mouse \<mapsto> mr\<lparr>m_state := st\<rparr>)
          in if st AND MOUSE_STATE_SCROLLING \<noteq> 0
             then (if evt_type evt = EV_REL \<and> evt_code evt = REL_Y
                   then Some (s\<lparr>heap := h, trace := trace s @
                          [UinputWrite (m_dev_uinput mr) EV_REL REL_WHEEL_HI_RES (- evt_value evt * 2)]\<rparr>)
                   else Some (s\<lparr>heap := h\<rparr>))
             else Some (s\<lparr>heap := h, trace := trace s @
                          [UinputWrite (m_dev_uinput mr) (evt_type evt) (evt_code evt) (evt_value evt)]\<rparr>))"

text \<open>A run of successfully read events, processed in order.\<close>

fun process_events :: "addr \<Rightarrow> input_event list \<Rightarrow> gstate \<Rightarrow> gstate option" where
  "process_events mouse [] s = Some s"
| "process_events mouse (evt # evts) s =
     Option.bind (process_event mouse evt s) (process_events mouse evts)"

text \<open>
  The middle-button release as it arrives, and how many of the releases in a run arrive
  while the mouse is not scrolling (the state being the one the code holds when the
  event is read).
\<close>

definition is_release :: "input_event \<Rightarrow> bool" where
  "is_release evt \<longleftrightarrow> evt_type evt = EV_KEY \<and> evt_code evt = BTN_MIDDLE \<and> evt_value evt = 0"

definition idle_at :: "addr \<Rightarrow> gstate \<Rightarrow> bool" where
  "idle_at mouse s =
     (case heap s mouse of None \<Rightarrow> False | Some mr \<Rightarrow> m_state mr AND MOUSE_STATE_SCROLLING = 0)"

fun releases_received_idle :: "addr \<Rightarrow> input_event list \<Rightarrow> gstate \<Rightarrow> nat" where
  "releases_received_idle mouse [] s = 0"
| "releases_received_idle mouse (evt # evts) s =
     (if is_release evt \<and> idle_at mouse s then 1 else 0) +
     (case process_event mouse evt s of
        None \<Rightarrow> 0
      | Some s' \<Rightarrow> releases_received_idle mouse evts s')"

definition forwarded_releases :: "handle \<Rightarrow> os_call list \<Rightarrow> nat" where
  "forwarded_releases ui tr = count_list tr (UinputWrite ui EV_KEY BTN_MIDDLE 0)"

section \<open>The registry: an intrusive singly linked list\<close>

text \<open>
  \<open>mouse_list h p as\<close>: following \<open>next\<close> from \<open>p\<close> in memory \<open>h\<close> visits exactly the
  addresses \<open>as\<close>, in this order, and then reaches null.
\<close>

fun mouse_list :: "(addr \<rightharpoonup> LUMouse) \<Rightarrow> addr \<Rightarrow> addr list \<Rightarrow> bool" where
  "mouse_list h p [] = (p = 0)"
| "mouse_list h p (a # as) =
     (p = a \<and> a \<noteq> 0 \<and> (case h a of None \<Rightarrow> False | Some mr \<Rightarrow> mouse_list h (m_next mr) as))"

text \<open>
  The \<open>for\<close> loop of \<open>unregister_mouse\<close>, started at \<open>m\<close>: it rewrites the \<open>next\<close> field of
  the predecessor of \<open>mouse\<close> and stops, or runs off the end of the list.
\<close>

partial_function (option) unlink_from :: "addr \<Rightarrow> addr \<Rightarrow> (addr \<rightharpoonup> LUMouse) \<Rightarrow> (addr \<rightharpoonup> LUMouse) option" where
  "unlink_from mouse m h =
     (if m = 0 then Some h
      else case h m of
             None \<Rightarrow> None
           | Some mr \<Rightarrow>
               if m_next mr = mouse
               then (case h mouse of
                       None \<Rightarrow> None
                     | Some victim \<Rightarrow> Some (h(m \<mapsto> mr\<lparr>m_next := m_next victim\<rparr>)))
               else unlink_from mouse (m_next mr) h)"

text \<open>
  \<open>unregister_mouse\<close>: unlink, then \<open>libevdev_grab(.., LIBEVDEV_UNGRAB)\<close>,
  \<open>libevdev_free\<close>, \<open>close\<close>, \<open>free\<close>. \<open>None\<close>: the call does not return, because
  a pointer it follows is invalid or the list never ends.
\<close>

definition unregister_mouse :: "addr \<Rightarrow> gstate \<Rightarrow> gstate option" where
  "unregister_mouse mouse s =
     (if mouse = 0 then Some s
      else do {
        s1 \<leftarrow> (if mice s = mouse
               then (case heap s mouse of
                       None \<Rightarrow> None
                     | Some mr \<Rightarrow> Some (s\<lparr>mice := m_next mr\<rparr>))
               else map_option (\<lambda>h. s\<lparr>heap := h\<rparr>) (unlink_from mouse (mice s) (heap s)));
        mr \<leftarrow> heap s1 mouse;
        Some (s1\<lparr>heap := (heap s1)(mouse := None),
                 trace := trace s1 @
                   [Ungrab (m_dev mr), FreeDev (m_dev mr), Close (m_fd mr), FreeMouse mouse]\<rparr>)
      })"

text \<open>The four calls that release one mouse, as \<open>unregister_mouse\<close> makes them.\<close>

definition release_calls :: "addr \<Rightarrow> LUMouse \<Rightarrow> os_call list" where
  "release_calls a mr = [Ungrab (m_dev mr), FreeDev (m_dev mr), Close (m_fd mr), FreeMouse a]"

definition releases :: "(addr \<rightharpoonup> LUMouse) \<Rightarrow> addr list \<Rightarrow> os_call list" where
  "releases h as =
     concat (map (\<lambda>a. case h a of None \<Rightarrow> [] | Some mr \<Rightarrow> release_calls a mr) as)"

section \<open>Registration\<close>

definition start_with :: "string \<Rightarrow> string \<Rightarrow> bool" where
  "start_with str substr \<longleftrightarrow> take (length substr) str = substr"

text \<open>
  What the operating system and libevdev answer during one call of
  \<open>check_register_mouse\<close>: the pointer from \<open>calloc\<close>, the descriptor from \<open>open\<close>,
  the status and the handle of \<open>libevdev_new_from_fd\<close>, the two capability queries, the
  status and the handle of \<open>libevdev_uinput_create_from_device\<close>, the status of
  \<open>libevdev_grab\<close> and the name of the device. A handle is stored only when its status
  is not negative.
\<close>

record probe =
  calloc_result :: addr
  open_result :: int
  new_from_fd_status :: int
  new_from_fd_dev :: handle
  has_EV_REL :: bool
  has_BTN_MIDDLE :: bool
  uinput_create_status :: int
  uinput_create_dev :: handle
  grab_status :: int
  dev_name :: string

definition check_register_mouse :: "string option \<Rightarrow> probe \<Rightarrow> gstate \<Rightarrow> gstate option" where
  "check_register_mouse path_opt pr s =
     (case path_opt of
        None \<Rightarrow> Some s
      | Some path \<Rightarrow>
          if \<not> start_with path (DEV_INPUT @ ''/event'') then Some s
          else
            let mouse = calloc_result pr;
                m0 = \<lparr>m_fd = open_result pr, m_dev = 0, m_dev_uinput = 0, m_state = 0, m_next = 0\<rparr>;
                m1 = m0\<lparr>m_dev := new_from_fd_dev pr\<rparr>;
                m2 = m1\<lparr>m_dev_uinput := uinput_create_dev pr\<rparr>;
                t0 = trace s @ [Open path, NewFromFd (open_result pr)];
                (is_ok, s1) =
                  (if mouse \<noteq> 0 then
                     if new_from_fd_status pr \<ge> 0 then
                       if has_EV_REL pr \<and> has_BTN_MIDDLE pr then
                         if uinput_create_status pr \<ge> 0 then
                           if grab_status pr \<ge> 0 then
                             (True, s\<lparr>heap := (heap s)(mouse \<mapsto> m2),
                                      trace := t0 @ [UinputCreate (m_dev m1), Grab (m_dev m2)]\<rparr>)
                           else
                             (False, s\<lparr>heap := (heap s)(mouse \<mapsto> m2),
                                       trace := t0 @ [UinputCreate (m_dev m1), Grab (m_dev m2),
                                                Msg (FailedGrab path (grab_status pr))]\<rparr>)
                         else
                           (False, s\<lparr>heap := (heap s)(mouse \<mapsto> m1),
                                     trace := t0 @ [UinputCreate (m_dev m1),
                                              Msg (FailedUinput path (uinput_create_status pr))]\<rparr>)
                       else (False, s\<lparr>heap := (heap s)(mouse \<mapsto> m1), trace := t0\<rparr>)
                     else
                       (False, s\<lparr>heap := (heap s)(mouse \<mapsto> m0),
                                 trace := t0 @ [Msg (FailedOpen path (new_from_fd_status pr))]\<rparr>)
                   else (False, s))
            in if \<not> is_ok then unregister_mouse mouse s1
               else (case heap s1 mouse of
                       None \<Rightarrow> None
                     | Some mr \<Rightarrow>
                         Some (s1\<lparr>heap := (heap s1)(mouse \<mapsto> mr\<lparr>m_next := mice s1\<rparr>),
                                  mice := mouse,
                                  trace := trace s1 @ [Msg (Registered (dev_name pr) path)]\<rparr>)))"

section \<open>The sweep\<close>

text \<open>The loop of \<open>unregister_dead_mice\<close>, with \<open>next_mouse\<close> read before the call.\<close>

partial_function (option) sweep_from :: "addr \<Rightarrow> gstate \<Rightarrow> gstate option" where
  "sweep_from mouse s =
     (if mouse = 0 then Some s
      else case heap s mouse of
             None \<Rightarrow> None
           | Some mr \<Rightarrow>
               if m_state mr AND MOUSE_STATE_DEAD \<noteq> 0
               then Option.bind (unregister_mouse mouse s) (sweep_from (m_next mr))
               else sweep_from (m_next mr) s)"

definition unregister_dead_mice :: "gstate \<Rightarrow> gstate option" where
  "unregister_dead_mice s = sweep_from (mice s) s"

section \<open>The read loop of main\<close>

text \<open>
  What \<open>libevdev_next_event\<close> answers on successive calls for one mouse: its status and
  the event it stores. The \<open>do ... while (true)\<close> loop ends at the first negative status
  and hands it on; if the answers run out before that, the loop has not ended (\<open>None\<close>).
\<close>

type_synonym read_result = "int \<times> input_event"

fun read_events :: "addr \<Rightarrow> read_result list \<Rightarrow> gstate \<Rightarrow> (int \<times> gstate) option" where
  "read_events mouse [] s = None"
| "read_events mouse ((status, evt) # rs) s =
     (if heap s mouse = None then None
      else if status < 0 then Some (status, s)
      else Option.bind (process_event mouse evt s) (read_events mouse rs))"

text \<open>The \<open>for\<close> loop over the registry inside the main loop, started at \<open>mouse\<close>.\<close>

partial_function (option) poll_from :: "(addr \<Rightarrow> read_result list) \<Rightarrow> addr \<Rightarrow> gstate \<Rightarrow> gstate option" where
  "poll_from pending mouse s =
     (if mouse = 0 then Some s
      else case read_events mouse (pending mouse) s of
             None \<Rightarrow> None
           | Some (status, s1) \<Rightarrow>
               (case heap s1 mouse of
                  None \<Rightarrow> None
                | Some mr \<Rightarrow>
                    if status \<noteq> - EAGAIN
                    then poll_from pending (m_next mr)
                           (s1\<lparr>heap := (heap s1)(mouse \<mapsto> mr\<lparr>m_state := m_state mr OR MOUSE_STATE_DEAD\<rparr>),
                               trace := trace s1 @ [Msg (ReadFailed status)]\<rparr>)
                    else poll_from pending (m_next mr) s1))"

text \<open>One iteration of the main loop from the \<open>for\<close> loop on: read every mouse, then sweep.\<close>

definition poll_and_sweep :: "(addr \<Rightarrow> read_result list) \<Rightarrow> gstate \<Rightarrow> gstate option" where
  "poll_and_sweep pending s = Option.bind (poll_from pending (mice s) s) unregister_dead_mice"

text \<open>The status the read loop ends with: the first negative one among the answers.\<close>

fun final_status :: "read_result list \<Rightarrow> int option" where
  "final_status [] = None"
| "final_status ((status, evt) # rs) = (if status < 0 then Some status else final_status rs)"

section \<open>Shutdown\<close>

text \<open>The last \<open>for\<close> loop of main, started at \<open>mouse\<close>, and the code after the main loop.\<close>

partial_function (option) mark_dead_from :: "addr \<Rightarrow> gstate \<Rightarrow> gstate option" where
  "mark_dead_from mouse s =
     (if mouse = 0 then Some s
      else case heap s mouse of
             None \<Rightarrow> None
           | Some mr \<Rightarrow>
               mark_dead_from (m_next mr)
                 (s\<lparr>heap := (heap s)(mouse \<mapsto> mr\<lparr>m_state := m_state mr OR MOUSE_STATE_DEAD\<rparr>)\<rparr>))"

definition shutdown :: "gstate \<Rightarrow> gstate option" where
  "shutdown s = Option.bind (mark_dead_from (mice s) s) unregister_dead_mice"

text \<open>
  The hot-plug notifications waiting at the top of an iteration, each with its action, its
  device node and the answers its registration attempt would get; only the action
  \<open>add\<close> leads to a registration attempt.
\<close>

fun receive_devices :: "(string \<times> string option \<times> probe) list \<Rightarrow> gstate \<Rightarrow> gstate option" where
  "receive_devices [] s = Some s"
| "receive_devices ((action, devnode, pr) # rest) s =
     (if action = ''add''
      then Option.bind (check_register_mouse devnode pr s) (receive_devices rest)
      else receive_devices rest s)"

definition sig_handler :: "gstate \<Rightarrow> gstate" where
  "sig_handler s = s\<lparr>stopped := True\<rparr>"

text \<open>
  The main loop, given for each iteration the notifications waiting, what every mouse
  delivers, and whether the interrupt signal arrives during it. The flag \<open>g.stopped\<close> is
  read only at the top of an iteration, so a signal takes effect there; when the iterations
  given run out with the flag still clear, the loop has not ended.
\<close>

record iteration =
  it_hotplug :: "(string \<times> string option \<times> probe) list"
  it_pending :: "addr \<Rightarrow> read_result list"
  it_sigint :: bool

fun main_loop :: "iteration list \<Rightarrow> gstate \<Rightarrow> gstate option" where
  "main_loop [] s = (if stopped s then shutdown s else None)"
| "main_loop (it # rest) s =
     (if stopped s then shutdown s
      else do {
        s1 \<leftarrow> receive_devices (it_hotplug it) s;
        s2 \<leftarrow> poll_and_sweep (it_pending it) s1;
        main_loop rest (if it_sigint it then sig_handler s2 else s2)
      })"

section \<open>Observations on the memory\<close>

text \<open>
  The fields of a mouse other than its link, and whether the mouse at an address carries
  the dead bit.
\<close>

definition payload :: "LUMouse \<Rightarrow> int \<times> handle \<times> handle \<times> 32 word" where
  "payload mr = (m_fd mr, m_dev mr, m_dev_uinput mr, m_state mr)"

definition is_dead :: "(addr \<rightharpoonup> LUMouse) \<Rightarrow> addr \<Rightarrow> bool" where
  "is_dead h a = (case h a of None \<Rightarrow> False | Some mr \<Rightarrow> m_state mr AND MOUSE_STATE_DEAD \<noteq> 0)"

text \<open>
  The fields of a mouse other than its state; whether a call is a write to a given sink;
  whether a call is one the read loop makes (a write to a sink or a message); and whether
  a mouse is dead once the read loop has gone over it: it was dead before, or its reads
  ended with a status other than \<open>-EAGAIN\<close>.
\<close>

definition links :: "LUMouse \<Rightarrow> int \<times> handle \<times> handle \<times> addr" where
  "links mr = (m_fd mr, m_dev mr, m_dev_uinput mr, m_next mr)"

definition dead_after :: "(addr \<Rightarrow> read_result list) \<Rightarrow> (addr \<rightharpoonup> LUMouse) \<Rightarrow> addr \<Rightarrow> bool" where
  "dead_after pending h b \<longleftrightarrow> is_dead h b \<or> final_status (pending b) \<noteq> Some (- EAGAIN)"

definition is_poll_call :: "os_call \<Rightarrow> bool" where
  "is_poll_call c = (case c of UinputWrite _ _ _ _ \<Rightarrow> True | Msg _ \<Rightarrow> True | _ \<Rightarrow> False)"

definition is_write :: "handle \<Rightarrow> os_call \<Rightarrow> bool" where
  "is_write ui c = (case c of UinputWrite ui' _ _ _ \<Rightarrow> ui' = ui | _ \<Rightarrow> False)"

section \<open>Concrete inputs\<close>

text \<open>
  A registry holding one mouse at address 1 (descriptor 3, device handle 7, sink handle 9)
  in a given state, a vertical-motion event and a middle-button event of a given value.
\<close>

definition example_mouse :: "32 word \<Rightarrow> addr \<Rightarrow> LUMouse" where
  "example_mouse st nx = \<lparr>m_fd = 3, m_dev = 7, m_dev_uinput = 9, m_state = st, m_next = nx\<rparr>"

definition example_state :: "32 word \<Rightarrow> gstate" where
  "example_state st = \<lparr>mice = 1, stopped = False, heap = [1 \<mapsto> example_mouse st 0], trace = []\<rparr>"

definition motion :: "32 word \<Rightarrow> input_event" where
  "motion v = \<lparr>evt_type = EV_REL, evt_code = REL_Y, evt_value = v\<rparr>"

definition middle :: "32 word \<Rightarrow> input_event" where
  "middle v = \<lparr>evt_type = EV_KEY, evt_code = BTN_MIDDLE, evt_value = v\<rparr>"

text \<open>
  Mouse number \<open>k\<close> with descriptor \<open>10 + k\<close>, device handle \<open>20 + k\<close> and sink handle
  \<open>30 + k\<close>; a registry of the two mice at addresses 1 and 2, in this order, with a third
  record at address 3 that is allocated but not linked.
\<close>

definition mouse_no :: "nat \<Rightarrow> 32 word \<Rightarrow> addr \<Rightarrow> LUMouse" where
  "mouse_no k st nx =
     \<lparr>m_fd = 10 + int k, m_dev = 20 + k, m_dev_uinput = 30 + k, m_state = st, m_next = nx\<rparr>"

definition two_mice :: "32 word \<Rightarrow> 32 word \<Rightarrow> gstate" where
  "two_mice st1 st2 =
     \<lparr>mice = 1, stopped = False,
      heap = [1 \<mapsto> mouse_no 1 st1 2, 2 \<mapsto> mouse_no 2 st2 0, 3 \<mapsto> mouse_no 3 0 0],
      trace = []\<rparr>"

text \<open>
  Answers for one registration attempt: the record is allocated at the unused address 4,
  the descriptor is 14, the device handle 24, the sink handle 34; the capabilities and the
  statuses of sink creation and grab are given.
\<close>

definition example_probe :: "bool \<Rightarrow> bool \<Rightarrow> int \<Rightarrow> int \<Rightarrow> probe" where
  "example_probe rel btn ust gst =
     \<lparr>calloc_result = 4, open_result = 14, new_from_fd_status = 0, new_from_fd_dev = 24,
      has_EV_REL = rel, has_BTN_MIDDLE = btn, uinput_create_status = ust,
      uinput_create_dev = 34, grab_status = gst, dev_name = ''mouse''\<rparr>"

text \<open>
  Reads for one iteration: the mouse at address 1 delivers one motion event and then fails
  with status -19; every other mouse has nothing to deliver (status -11, would block).
\<close>

definition example_pending :: "addr \<Rightarrow> read_result list" where
  "example_pending = (\<lambda>_. [(- 11, motion 0)])(1 := [(0, motion 5), (- 19, motion 0)])"

section \<open>Facts about the state bits\<close>

lemma bit_SCROLLING: "bit MOUSE_STATE_SCROLLING n \<longleftrightarrow> n = 2"
  unfolding MOUSE_STATE_SCROLLING_def push_bit_of_1 by (simp only: bit_exp_iff) auto

lemma bit_DEAD: "bit MOUSE_STATE_DEAD n \<longleftrightarrow> n = 0"
  unfolding MOUSE_STATE_DEAD_def push_bit_of_1 by (simp only: bit_exp_iff) auto

lemma SCROLLING_nonzero: "MOUSE_STATE_SCROLLING \<noteq> 0"
  by (simp add: MOUSE_STATE_SCROLLING_def)

lemma scrolling_or: "(x OR MOUSE_STATE_SCROLLING) AND MOUSE_STATE_SCROLLING \<noteq> 0"
proof
  assume "(x OR MOUSE_STATE_SCROLLING) AND MOUSE_STATE_SCROLLING = 0"
  then have "bit ((x OR MOUSE_STATE_SCROLLING) AND MOUSE_STATE_SCROLLING) 2 = bit (0::32 word) 2" by simp
  then show False by (simp add: bit_simps bit_SCROLLING)
qed

lemma scrolling_and_not: "(x AND NOT MOUSE_STATE_SCROLLING) AND MOUSE_STATE_SCROLLING = 0"
  by (rule bit_word_eqI) (auto simp add: bit_simps bit_SCROLLING) 

lemma scrolling_bit: "x AND MOUSE_STATE_SCROLLING \<noteq> 0 \<longleftrightarrow> bit x 2"
proof
  assume "x AND MOUSE_STATE_SCROLLING \<noteq> 0"
  then show "bit x 2"
    by (rule contrapos_np) (rule bit_word_eqI, auto simp add: bit_simps bit_SCROLLING)
next
  assume b: "bit x 2"
  show "x AND MOUSE_STATE_SCROLLING \<noteq> 0"
  proof
    assume "x AND MOUSE_STATE_SCROLLING = 0"
    then have "bit (x AND MOUSE_STATE_SCROLLING) 2 = bit (0::32 word) 2" by simp
    with b show False by (simp add: bit_simps bit_SCROLLING)
  qed
qed

lemma dead_bit: "x AND MOUSE_STATE_DEAD \<noteq> 0 \<longleftrightarrow> bit x 0"
proof
  assume "x AND MOUSE_STATE_DEAD \<noteq> 0"
  then show "bit x 0"
    by (rule contrapos_np) (rule bit_word_eqI, auto simp add: bit_simps bit_DEAD intro!: gr0I)
next
  assume b: "bit x 0"
  show "x AND MOUSE_STATE_DEAD \<noteq> 0"
  proof
    assume "x AND MOUSE_STATE_DEAD = 0"
    then have "bit (x AND MOUSE_STATE_DEAD) 0 = bit (0::32 word) 0" by simp
    with b show False by (simp add: bit_simps bit_DEAD)
  qed
qed

lemma scrolling_or_idem: "x AND MOUSE_STATE_SCROLLING \<noteq> 0 \<Longrightarrow> x OR MOUSE_STATE_SCROLLING = x"
  unfolding scrolling_bit by (rule bit_word_eqI) (auto simp add: bit_simps bit_SCROLLING) 

lemma scrolling_and_not_idem: "x AND MOUSE_STATE_SCROLLING = 0 \<Longrightarrow> x AND NOT MOUSE_STATE_SCROLLING = x"
  using scrolling_bit [of x] by - (rule bit_word_eqI, auto simp add: bit_simps bit_SCROLLING) 

lemma dead_or_scrolling: "(x OR MOUSE_STATE_SCROLLING) AND MOUSE_STATE_DEAD = x AND MOUSE_STATE_DEAD"
  by (rule bit_word_eqI) (auto simp add: bit_simps bit_SCROLLING bit_DEAD) 

lemma dead_and_not_scrolling: "(x AND NOT MOUSE_STATE_SCROLLING) AND MOUSE_STATE_DEAD = x AND MOUSE_STATE_DEAD"
  by (rule bit_word_eqI) (auto simp add: bit_simps bit_SCROLLING bit_DEAD) 

lemma dead_or: "(x OR MOUSE_STATE_DEAD) AND MOUSE_STATE_DEAD \<noteq> 0"
  unfolding dead_bit by (simp add: bit_simps bit_DEAD)

lemma sint_double: "- (2^30) < sint (v::32 word) \<Longrightarrow> sint v \<le> 2^30 \<Longrightarrow> sint (- v * 2) = - 2 * sint v"
proof -
  assume a: "- (2^30) < sint v" "sint v \<le> 2^30"
  have "sint (- v) = signed_take_bit (LENGTH(32) - 1) (- sint v)"
    by (rule sint_word_ariths)
  also have "\<dots> = - sint v"
    using a by (simp add: signed_take_bit_int_eq_self)
  finally have n: "sint (- v) = - sint v" .
  have "sint (- v * 2) = signed_take_bit (LENGTH(32) - 1) (sint (- v) * sint (2::32 word))"
    by (rule sint_word_ariths)
  also have "\<dots> = signed_take_bit 31 (- sint v * 2)"
    unfolding n by simp
  also have "\<dots> = - sint v * 2"
    using a by (intro signed_take_bit_int_eq_self) auto
  finally show ?thesis by simp
qed

lemma process_event_rel_y:
  assumes "heap s mouse = Some mr" "m_state mr AND MOUSE_STATE_SCROLLING \<noteq> 0"
    "evt_type evt = EV_REL" "evt_code evt = REL_Y"
  shows "process_event mouse evt s = Some (s\<lparr>trace := trace s @
           [UinputWrite (m_dev_uinput mr) EV_REL REL_WHEEL_HI_RES (- 2 * evt_value evt)]\<rparr>)"
  using assms by (simp add: process_event_def EV_REL_def EV_KEY_def fun_upd_idem)

lemma process_event_press:
  assumes "heap s mouse = Some mr" "evt_type evt = EV_KEY" "evt_code evt = BTN_MIDDLE" "evt_value evt \<noteq> 0"
  shows "process_event mouse evt s =
     Some (s\<lparr>heap := (heap s)(mouse \<mapsto> mr\<lparr>m_state := m_state mr OR MOUSE_STATE_SCROLLING\<rparr>)\<rparr>)"
  using assms by (simp add: process_event_def Let_def EV_REL_def EV_KEY_def SCROLLING_nonzero)

lemma process_event_release:
  assumes "heap s mouse = Some mr" "evt_type evt = EV_KEY" "evt_code evt = BTN_MIDDLE" "evt_value evt = 0"
  shows "process_event mouse evt s =
     Some (s\<lparr>heap := (heap s)(mouse \<mapsto> mr\<lparr>m_state := m_state mr AND NOT MOUSE_STATE_SCROLLING\<rparr>),
             trace := trace s @ [UinputWrite (m_dev_uinput mr) (evt_type evt) (evt_code evt) (evt_value evt)]\<rparr>)"
  using assms by (simp add: process_event_def EV_REL_def EV_KEY_def scrolling_and_not)

lemma process_event_idle:
  assumes "heap s mouse = Some mr" "m_state mr AND MOUSE_STATE_SCROLLING = 0"
    "\<not> (evt_type evt = EV_KEY \<and> evt_code evt = BTN_MIDDLE \<and> evt_value evt \<noteq> 0)"
  shows "process_event mouse evt s =
     Some (s\<lparr>trace := trace s @ [UinputWrite (m_dev_uinput mr) (evt_type evt) (evt_code evt) (evt_value evt)]\<rparr>)"
  using assms by (auto simp add: process_event_def scrolling_and_not scrolling_and_not_idem fun_upd_idem)


lemma process_event_step:
  assumes "heap s mouse = Some mr"
  shows "\<exists>st out. process_event mouse evt s =
            Some (s\<lparr>heap := (heap s)(mouse \<mapsto> mr\<lparr>m_state := st\<rparr>), trace := trace s @ out\<rparr>)
          \<and> count_list out (UinputWrite (m_dev_uinput mr) EV_KEY BTN_MIDDLE 0) =
              (if is_release evt then 1 else 0)
          \<and> st AND MOUSE_STATE_DEAD = m_state mr AND MOUSE_STATE_DEAD"
proof (cases "evt_type evt = EV_KEY \<and> evt_code evt = BTN_MIDDLE")
  case True
  show ?thesis
  proof (cases "evt_value evt = 0")
    case True
    with \<open>evt_type evt = EV_KEY \<and> evt_code evt = BTN_MIDDLE\<close> assms show ?thesis
      by (intro exI [of _ "m_state mr AND NOT MOUSE_STATE_SCROLLING"]
          exI [of _ "[UinputWrite (m_dev_uinput mr) (evt_type evt) (evt_code evt) (evt_value evt)]"])
        (simp add: process_event_release is_release_def dead_and_not_scrolling)
  next
    case False
    with \<open>evt_type evt = EV_KEY \<and> evt_code evt = BTN_MIDDLE\<close> assms show ?thesis
      by (intro exI [of _ "m_state mr OR MOUSE_STATE_SCROLLING"] exI [of _ "[]"])
        (simp add: process_event_press is_release_def dead_or_scrolling)
  qed
next
  case False
  then have nr: "\<not> is_release evt" by (auto simp add: is_release_def)
  show ?thesis
  proof (cases "m_state mr AND MOUSE_STATE_SCROLLING = 0")
    case True
    with False assms nr show ?thesis
      by (intro exI [of _ "m_state mr"]
          exI [of _ "[UinputWrite (m_dev_uinput mr) (evt_type evt) (evt_code evt) (evt_value evt)]"])
        (auto simp add: process_event_idle is_release_def fun_upd_idem)
  next
    case scr: False
    show ?thesis
    proof (cases "evt_type evt = EV_REL \<and> evt_code evt = REL_Y")
      case True
      with True assms nr \<open>m_state mr AND MOUSE_STATE_SCROLLING \<noteq> 0\<close> show ?thesis
        by (intro exI [of _ "m_state mr"]
            exI [of _ "[UinputWrite (m_dev_uinput mr) EV_REL REL_WHEEL_HI_RES (- 2 * evt_value evt)]"])
          (simp add: process_event_rel_y fun_upd_idem EV_REL_def EV_KEY_def)
    next
      case False
      with \<open>\<not> (evt_type evt = EV_KEY \<and> evt_code evt = BTN_MIDDLE)\<close> assms nr
        \<open>m_state mr AND MOUSE_STATE_SCROLLING \<noteq> 0\<close> show ?thesis
        by (intro exI [of _ "m_state mr"] exI [of _ "[]"])
          (auto simp add: process_event_def fun_upd_idem)
    qed
  qed
qed

section \<open>Event translation\<close>

text \<open>
  Claim C1. While a mouse is scrolling, a relative vertical-motion event of value \<open>v\<close> makes
  the code write exactly one event to that mouse's sink, the high-resolution wheel event of
  value \<open>-2 * v\<close>, and nothing else changes; the event written is not the motion event
  itself. The product is the 32-bit one, and it is the integer \<open>-2 * v\<close> whenever that
  fits into 32 bits. Starting from idle, the run middle-button down, motion +5, motion -3,
  middle-button up writes wheel -10, wheel +6 and the button release, and leaves the mouse
  as it was, idle.
\<close>

theorem scrolling_motion_becomes_wheel:
  assumes "heap s mouse = Some mr"
  shows "(m_state mr AND MOUSE_STATE_SCROLLING \<noteq> 0 \<and> evt_type evt = EV_REL \<and> evt_code evt = REL_Y \<longrightarrow>
            process_event mouse evt s =
              Some (s\<lparr>trace := trace s @
                [UinputWrite (m_dev_uinput mr) EV_REL REL_WHEEL_HI_RES (- 2 * evt_value evt)]\<rparr>)
          \<and> UinputWrite (m_dev_uinput mr) EV_REL REL_WHEEL_HI_RES (- 2 * evt_value evt)
              \<noteq> UinputWrite (m_dev_uinput mr) (evt_type evt) (evt_code evt) (evt_value evt)
          \<and> (- (2 ^ 30) < sint (evt_value evt) \<and> sint (evt_value evt) \<le> 2 ^ 30 \<longrightarrow>
               sint (- 2 * evt_value evt) = - 2 * sint (evt_value evt)))
       \<and> (m_state mr AND MOUSE_STATE_SCROLLING = 0 \<longrightarrow>
            process_events mouse
              [\<lparr>evt_type = EV_KEY, evt_code = BTN_MIDDLE, evt_value = 1\<rparr>,
               \<lparr>evt_type = EV_REL, evt_code = REL_Y, evt_value = 5\<rparr>,
               \<lparr>evt_type = EV_REL, evt_code = REL_Y, evt_value = - 3\<rparr>,
               \<lparr>evt_type = EV_KEY, evt_code = BTN_MIDDLE, evt_value = 0\<rparr>] s =
              Some (s\<lparr>trace := trace s @
                [UinputWrite (m_dev_uinput mr) EV_REL REL_WHEEL_HI_RES (- 10),
                 UinputWrite (m_dev_uinput mr) EV_REL REL_WHEEL_HI_RES 6,
                 UinputWrite (m_dev_uinput mr) EV_KEY BTN_MIDDLE 0]\<rparr>))"
proof (intro conjI impI)
  assume a: "m_state mr AND MOUSE_STATE_SCROLLING \<noteq> 0 \<and> evt_type evt = EV_REL \<and> evt_code evt = REL_Y"
  show "process_event mouse evt s =
              Some (s\<lparr>trace := trace s @
                [UinputWrite (m_dev_uinput mr) EV_REL REL_WHEEL_HI_RES (- 2 * evt_value evt)]\<rparr>)"
    using assms a by (simp add: process_event_rel_y)
  show "UinputWrite (m_dev_uinput mr) EV_REL REL_WHEEL_HI_RES (- 2 * evt_value evt)
              \<noteq> UinputWrite (m_dev_uinput mr) (evt_type evt) (evt_code evt) (evt_value evt)"
    using a by (simp add: REL_Y_def REL_WHEEL_HI_RES_def)
  assume "- (2 ^ 30) < sint (evt_value evt) \<and> sint (evt_value evt) \<le> 2 ^ 30"
  then show "sint (- 2 * evt_value evt) = - 2 * sint (evt_value evt)"
    using sint_double [of "evt_value evt"] by (simp add: mult.commute)
next
  assume idle: "m_state mr AND MOUSE_STATE_SCROLLING = 0"
  let ?ui = "m_dev_uinput mr"
  let ?mr1 = "mr\<lparr>m_state := m_state mr OR MOUSE_STATE_SCROLLING\<rparr>"
  let ?s1 = "s\<lparr>heap := (heap s)(mouse \<mapsto> ?mr1)\<rparr>"
  let ?s2 = "?s1\<lparr>trace := trace s @ [UinputWrite ?ui EV_REL REL_WHEEL_HI_RES (- 10)]\<rparr>"
  let ?s3 = "?s2\<lparr>trace := trace ?s2 @ [UinputWrite ?ui EV_REL REL_WHEEL_HI_RES 6]\<rparr>"
  have h1: "heap ?s1 mouse = Some ?mr1" "heap ?s2 mouse = Some ?mr1" "heap ?s3 mouse = Some ?mr1"
    by simp_all
  have sc: "m_state ?mr1 AND MOUSE_STATE_SCROLLING \<noteq> 0"
    by (simp add: SCROLLING_nonzero)
  have restore: "(m_state mr OR MOUSE_STATE_SCROLLING) AND NOT MOUSE_STATE_SCROLLING = m_state mr"
    using idle scrolling_bit [of "m_state mr"]
    by - (rule bit_word_eqI, auto simp add: bit_simps bit_SCROLLING)
  have e1: "process_event mouse \<lparr>evt_type = EV_KEY, evt_code = BTN_MIDDLE, evt_value = 1\<rparr> s = Some ?s1"
    using assms by (simp add: process_event_press)
  have e2: "process_event mouse \<lparr>evt_type = EV_REL, evt_code = REL_Y, evt_value = 5\<rparr> ?s1 = Some ?s2"
    using process_event_rel_y [OF h1(1) sc, of "\<lparr>evt_type = EV_REL, evt_code = REL_Y, evt_value = 5\<rparr>"]
    by simp
  have e3: "process_event mouse \<lparr>evt_type = EV_REL, evt_code = REL_Y, evt_value = - 3\<rparr> ?s2 = Some ?s3"
    using process_event_rel_y [OF h1(2) sc, of "\<lparr>evt_type = EV_REL, evt_code = REL_Y, evt_value = - 3\<rparr>"]
    by simp
  have e4: "process_event mouse \<lparr>evt_type = EV_KEY, evt_code = BTN_MIDDLE, evt_value = 0\<rparr> ?s3 =
      Some (s\<lparr>trace := trace s @
                [UinputWrite ?ui EV_REL REL_WHEEL_HI_RES (- 10),
                 UinputWrite ?ui EV_REL REL_WHEEL_HI_RES 6,
                 UinputWrite ?ui EV_KEY BTN_MIDDLE 0]\<rparr>)"
    using process_event_release [OF h1(3), of "\<lparr>evt_type = EV_KEY, evt_code = BTN_MIDDLE, evt_value = 0\<rparr>"]
      assms
    by (simp add: restore fun_upd_idem)
  show "process_events mouse
              [\<lparr>evt_type = EV_KEY, evt_code = BTN_MIDDLE, evt_value = 1\<rparr>,
               \<lparr>evt_type = EV_REL, evt_code = REL_Y, evt_value = 5\<rparr>,
               \<lparr>evt_type = EV_REL, evt_code = REL_Y, evt_value = - 3\<rparr>,
               \<lparr>evt_type = EV_KEY, evt_code = BTN_MIDDLE, evt_value = 0\<rparr>] s =
              Some (s\<lparr>trace := trace s @
                [UinputWrite (m_dev_uinput mr) EV_REL REL_WHEEL_HI_RES (- 10),
                 UinputWrite (m_dev_uinput mr) EV_REL REL_WHEEL_HI_RES 6,
                 UinputWrite (m_dev_uinput mr) EV_KEY BTN_MIDDLE 0]\<rparr>)"
    by (simp only: process_events.simps e1 e2 e3 e4 Option.bind.simps)
qed

theorem scrolling_motion_becomes_wheel_witness:
  "heap (example_state 4) 1 = Some (example_mouse 4 0)
   \<and> m_state (example_mouse 4 0) AND MOUSE_STATE_SCROLLING \<noteq> 0
   \<and> process_event 1 (motion 5) (example_state 4) =
       Some ((example_state 4)\<lparr>trace := [UinputWrite 9 EV_REL REL_WHEEL_HI_RES (- 10)]\<rparr>)
   \<and> sint (- 2 * evt_value (motion 5)) = - 10
   \<and> heap (example_state 0) 1 = Some (example_mouse 0 0)
   \<and> m_state (example_mouse 0 0) AND MOUSE_STATE_SCROLLING = 0
   \<and> process_events 1 [middle 1, motion 5, motion (- 3), middle 0] (example_state 0) =
       Some ((example_state 0)\<lparr>trace :=
         [UinputWrite 9 EV_REL REL_WHEEL_HI_RES (- 10),
          UinputWrite 9 EV_REL REL_WHEEL_HI_RES 6,
          UinputWrite 9 EV_KEY BTN_MIDDLE 0]\<rparr>)"
  using scrolling_motion_becomes_wheel [of "example_state 4" 1 "example_mouse 4 0" "motion 5"]
    scrolling_motion_becomes_wheel [of "example_state 0" 1 "example_mouse 0 0"]
  by (simp add: example_state_def example_mouse_def motion_def middle_def MOUSE_STATE_SCROLLING_def)

text \<open>
  Claim C2. A middle-button event of non-zero value sets the scrolling bit and writes
  nothing to the sink; a middle-button event of value zero clears the bit, whatever the
  state was, and is written to the sink with its type, code and value.
\<close>

theorem middle_button_transitions:
  assumes "heap s mouse = Some mr" "evt_type evt = EV_KEY" "evt_code evt = BTN_MIDDLE"
  shows "(evt_value evt \<noteq> 0 \<longrightarrow>
           process_event mouse evt s =
             Some (s\<lparr>heap := (heap s)(mouse \<mapsto> mr\<lparr>m_state := m_state mr OR MOUSE_STATE_SCROLLING\<rparr>)\<rparr>)
           \<and> (m_state mr OR MOUSE_STATE_SCROLLING) AND MOUSE_STATE_SCROLLING \<noteq> 0)
       \<and> (evt_value evt = 0 \<longrightarrow>
           process_event mouse evt s =
             Some (s\<lparr>heap := (heap s)(mouse \<mapsto> mr\<lparr>m_state := m_state mr AND NOT MOUSE_STATE_SCROLLING\<rparr>),
                     trace := trace s @
                       [UinputWrite (m_dev_uinput mr) (evt_type evt) (evt_code evt) (evt_value evt)]\<rparr>)
           \<and> (m_state mr AND NOT MOUSE_STATE_SCROLLING) AND MOUSE_STATE_SCROLLING = 0)"
  using process_event_press [OF assms] process_event_release [OF assms]
    scrolling_or [of "m_state mr"] scrolling_and_not [of "m_state mr"]
  by blast

theorem middle_button_transitions_witness:
  "process_event 1 (middle 1) (example_state 0) =
     Some ((example_state 0)\<lparr>heap := [1 \<mapsto> example_mouse 4 0]\<rparr>)
   \<and> process_event 1 (middle 0) (example_state 4) =
     Some ((example_state 4)\<lparr>heap := [1 \<mapsto> example_mouse 0 0],
                               trace := [UinputWrite 9 EV_KEY BTN_MIDDLE 0]\<rparr>)
   \<and> process_event 1 (middle 0) (example_state 0) =
     Some ((example_state 0)\<lparr>trace := [UinputWrite 9 EV_KEY BTN_MIDDLE 0]\<rparr>)"
  using middle_button_transitions [of "example_state 0" 1 "example_mouse 0 0" "middle 1"]
    middle_button_transitions [of "example_state 4" 1 "example_mouse 4 0" "middle 0"]
    middle_button_transitions [of "example_state 0" 1 "example_mouse 0 0" "middle 0"]
  by (simp add: example_state_def example_mouse_def middle_def MOUSE_STATE_SCROLLING_def)

text \<open>
  Claim C3. While a mouse is idle, every event other than a middle-button press (so also a
  middle-button release) is written to that mouse's sink with the same type, code and
  value, and the mouse stays as it was.
\<close>

theorem idle_passes_through:
  assumes "heap s mouse = Some mr" "m_state mr AND MOUSE_STATE_SCROLLING = 0"
    "\<not> (evt_type evt = EV_KEY \<and> evt_code evt = BTN_MIDDLE \<and> evt_value evt \<noteq> 0)"
  shows "process_event mouse evt s =
     Some (s\<lparr>trace := trace s @
       [UinputWrite (m_dev_uinput mr) (evt_type evt) (evt_code evt) (evt_value evt)]\<rparr>)"
  using assms by (rule process_event_idle)

theorem idle_passes_through_witness:
  "process_event 1 (motion 5) (example_state 0) =
     Some ((example_state 0)\<lparr>trace := [UinputWrite 9 EV_REL REL_Y 5]\<rparr>)
   \<and> process_event 1 (middle 0) (example_state 1) =
     Some ((example_state 1)\<lparr>trace := [UinputWrite 9 EV_KEY BTN_MIDDLE 0]\<rparr>)"
  using idle_passes_through [of "example_state 0" 1 "example_mouse 0 0" "motion 5"]
    idle_passes_through [of "example_state 1" 1 "example_mouse 1 0" "middle 0"]
  by (simp add: example_state_def example_mouse_def middle_def motion_def MOUSE_STATE_SCROLLING_def
      EV_KEY_def EV_REL_def)

text \<open>
  Claim C9. A middle-button press arriving while the mouse is already scrolling changes
  nothing at all: the state stays scrolling and no call is made.
\<close>

theorem repeated_press_is_idempotent:
  assumes "heap s mouse = Some mr" "m_state mr AND MOUSE_STATE_SCROLLING \<noteq> 0"
    "evt_type evt = EV_KEY" "evt_code evt = BTN_MIDDLE" "evt_value evt \<noteq> 0"
  shows "process_event mouse evt s = Some s"
  using process_event_press [OF assms(1,3,4,5)] assms(1,2)
  by (simp add: scrolling_or_idem fun_upd_idem)

theorem repeated_press_is_idempotent_witness:
  "process_event 1 (middle 1) (example_state 4) = Some (example_state 4)
   \<and> process_event 1 (middle 1) (example_state 5) = Some (example_state 5)"
  using repeated_press_is_idempotent [of "example_state 4" 1 "example_mouse 4 0" "middle 1"]
    repeated_press_is_idempotent [of "example_state 5" 1 "example_mouse 5 0" "middle 1"]
  by (simp add: example_state_def example_mouse_def middle_def MOUSE_STATE_SCROLLING_def)

text \<open>
  Claim C4, as the code has it. Every middle-button release that is read is written to the
  sink, whether the mouse was idle or scrolling when it arrived: over any run of events the
  number of releases written grows by the number of releases read.
\<close>

theorem every_release_is_forwarded:
  assumes "heap s mouse = Some mr"
  shows "\<exists>s'. process_events mouse evts s = Some s'
      \<and> forwarded_releases (m_dev_uinput mr) (trace s') =
          forwarded_releases (m_dev_uinput mr) (trace s) + length (filter is_release evts)"
  using assms
proof (induction evts arbitrary: s mr)
  case Nil
  then show ?case by simp
next
  case (Cons evt evts)
  from process_event_step [OF Cons.prems, of evt] obtain st out where
    step: "process_event mouse evt s =
            Some (s\<lparr>heap := (heap s)(mouse \<mapsto> mr\<lparr>m_state := st\<rparr>), trace := trace s @ out\<rparr>)"
    and cnt: "count_list out (UinputWrite (m_dev_uinput mr) EV_KEY BTN_MIDDLE 0) =
              (if is_release evt then 1 else 0)"
    by blast
  let ?s1 = "s\<lparr>heap := (heap s)(mouse \<mapsto> mr\<lparr>m_state := st\<rparr>), trace := trace s @ out\<rparr>"
  have "heap ?s1 mouse = Some (mr\<lparr>m_state := st\<rparr>)" by simp
  from Cons.IH [OF this] obtain s' where
    rest: "process_events mouse evts ?s1 = Some s'"
    and "forwarded_releases (m_dev_uinput mr) (trace s') =
          forwarded_releases (m_dev_uinput mr) (trace ?s1) + length (filter is_release evts)"
    by auto
  with cnt have "forwarded_releases (m_dev_uinput mr) (trace s') =
      forwarded_releases (m_dev_uinput mr) (trace s) + length (filter is_release (evt # evts))"
    by (simp add: forwarded_releases_def)
  with step rest show ?case by simp
qed

theorem every_release_is_forwarded_witness:
  "\<exists>s'. process_events 1 [middle 1, motion 5, middle 0, middle 0] (example_state 0) = Some s'
      \<and> forwarded_releases 9 (trace s') = 2"
  using every_release_is_forwarded [of "example_state 0" 1 "example_mouse 0 0"
      "[middle 1, motion 5, middle 0, middle 0]"]
  by (simp add: example_state_def example_mouse_def middle_def motion_def is_release_def
      forwarded_releases_def EV_KEY_def EV_REL_def numeral_2_eq_2)

text \<open>
  A press followed by a release, starting idle: the release arrives while the mouse is
  scrolling and is written all the same, so one release is forwarded and none was received
  while idle.
\<close>

theorem release_while_scrolling_is_forwarded:
  "process_events 1 [middle 1, middle 0] (example_state 0) =
     Some ((example_state 0)\<lparr>trace := [UinputWrite 9 EV_KEY BTN_MIDDLE 0]\<rparr>)
   \<and> forwarded_releases 9 [UinputWrite 9 EV_KEY BTN_MIDDLE 0] = 1
   \<and> releases_received_idle 1 [middle 1, middle 0] (example_state 0) = 0"
  by (simp add: example_state_def example_mouse_def middle_def process_event_def
      forwarded_releases_def is_release_def idle_at_def MOUSE_STATE_SCROLLING_def
      EV_KEY_def EV_REL_def BTN_MIDDLE_def)

section \<open>The registry list\<close>

lemma mouse_list_Cons [simp]:
  "mouse_list h p (a # as) \<longleftrightarrow>
     p = a \<and> a \<noteq> 0 \<and> (\<exists>mr. h a = Some mr \<and> mouse_list h (m_next mr) as)"
  by (cases "h a") simp_all

declare mouse_list.simps(2) [simp del]

lemma mouse_list_head: "mouse_list h p xs \<Longrightarrow> p = (case xs of [] \<Rightarrow> 0 | a # _ \<Rightarrow> a)"
  by (cases xs) auto

lemma mouse_list_null [simp]: "mouse_list h 0 xs \<longleftrightarrow> xs = []"
  by (cases xs) auto

lemma mouse_list_nonnull: "mouse_list h p xs \<Longrightarrow> 0 \<notin> set xs"
  by (induction xs arbitrary: p) auto

lemma mouse_list_allocated: "mouse_list h p xs \<Longrightarrow> a \<in> set xs \<Longrightarrow> \<exists>mr. h a = Some mr"
  by (induction xs arbitrary: p) auto

lemma mouse_list_unique: "mouse_list h p xs \<Longrightarrow> mouse_list h p ys \<Longrightarrow> xs = ys"
proof (induction xs arbitrary: p ys)
  case Nil
  then show ?case by simp
next
  case (Cons a as)
  then show ?case by (cases ys) auto
qed

lemma mouse_list_suffix: "mouse_list h p (us @ b # vs) \<Longrightarrow> mouse_list h b (b # vs)"
  by (induction us arbitrary: p) auto

lemma mouse_list_head_notin_tail:
  assumes "mouse_list h p (a # as)"
  shows "a \<notin> set as"
proof
  assume "a \<in> set as"
  then obtain us vs where as: "as = us @ a # vs" by (auto dest: split_list)
  from assms have "mouse_list h a (a # as)" by simp
  moreover from assms as have "mouse_list h a (a # vs)"
    using mouse_list_suffix [of h p "a # us" a vs] by simp
  ultimately have "a # as = a # vs" by (rule mouse_list_unique)
  with as show False by simp
qed

lemma mouse_list_distinct: "mouse_list h p xs \<Longrightarrow> distinct xs"
proof (induction xs arbitrary: p)
  case Nil
  then show ?case by simp
next
  case (Cons a as)
  from Cons.prems have "a \<notin> set as" by (rule mouse_list_head_notin_tail)
  moreover from Cons.prems obtain mr :: LUMouse where "mouse_list h (m_next mr) as"
    by auto
  then have "distinct as" by (rule Cons.IH)
  ultimately show ?case by simp
qed

lemma mouse_list_cong:
  "(\<And>a. a \<in> set xs \<Longrightarrow> map_option m_next (h' a) = map_option m_next (h a)) \<Longrightarrow>
   mouse_list h' p xs = mouse_list h p xs"
proof (induction xs arbitrary: p)
  case Nil
  then show ?case by simp
next
  case (Cons a as)
  have "map_option m_next (h' a) = map_option m_next (h a)" by (rule Cons.prems) simp
  moreover have "\<And>q. mouse_list h' q as = mouse_list h q as"
    by (rule Cons.IH) (simp add: Cons.prems)
  ultimately show ?case by (cases "h a"; cases "h' a") auto
qed

lemma mouse_list_update_other:
  "a \<notin> set xs \<Longrightarrow> mouse_list (h(a := v)) p xs = mouse_list h p xs"
  by (rule mouse_list_cong) auto

lemma unlink_absent:
  "mouse_list h m xs \<Longrightarrow> mouse \<notin> set xs \<Longrightarrow> mouse \<noteq> 0 \<Longrightarrow> unlink_from mouse m h = Some h"
proof (induction xs arbitrary: m)
  case Nil
  then show ?case by (simp add: unlink_from.simps)
next
  case (Cons a as)
  from Cons.prems(1) obtain mr where mr: "m = a" "a \<noteq> 0" "h a = Some mr" "mouse_list h (m_next mr) as"
    by auto
  from mr(4) have "m_next mr = (case as of [] \<Rightarrow> 0 | b # _ \<Rightarrow> b)" by (rule mouse_list_head)
  with Cons.prems(2,3) have ne: "m_next mr \<noteq> mouse" by (cases as) auto
  from Cons.prems(2,3) have "unlink_from mouse (m_next mr) h = Some h"
    by (intro Cons.IH [OF mr(4)]) auto
  with mr ne show ?case by (subst unlink_from.simps) simp
qed

lemma unlink_present:
  "mouse_list h m xs \<Longrightarrow> mouse \<in> set xs \<Longrightarrow> m \<noteq> mouse \<Longrightarrow>
   \<exists>h'. unlink_from mouse m h = Some h'
      \<and> mouse_list h' m (remove1 mouse xs)
      \<and> (\<forall>b. b \<notin> set xs \<longrightarrow> h' b = h b)
      \<and> (\<forall>b. map_option payload (h' b) = map_option payload (h b))
      \<and> h' mouse = h mouse"
proof (induction xs arbitrary: m)
  case Nil
  then show ?case by simp
next
  case (Cons a as)
  from Cons.prems(1) obtain mr where mr: "m = a" "a \<noteq> 0" "h a = Some mr" "mouse_list h (m_next mr) as"
    by auto
  from Cons.prems(1) have a_notin: "a \<notin> set as" by (rule mouse_list_head_notin_tail)
  from Cons.prems mr have mouse_in: "mouse \<in> set as" and am: "a \<noteq> mouse" by auto
  show ?case
  proof (cases "m_next mr = mouse")
    case True
    with mr(4) mouse_in obtain as' where as: "as = mouse # as'" by (cases as) auto
    with mr(4) True obtain victim where v: "h mouse = Some victim" "mouse_list h (m_next victim) as'"
      by auto
    let ?h' = "h(a \<mapsto> mr\<lparr>m_next := m_next victim\<rparr>)"
    have run: "unlink_from mouse m h = Some ?h'"
      using mr True v by (subst unlink_from.simps) simp
    from a_notin as have "a \<notin> set as'" by simp
    then have "mouse_list ?h' (m_next victim) as'"
      using v(2) by (simp add: mouse_list_update_other)
    then have "mouse_list ?h' m (remove1 mouse (a # as))"
      using mr am as by simp
    moreover have "\<forall>b. b \<notin> set (a # as) \<longrightarrow> ?h' b = h b" by simp
    moreover have "\<forall>b. map_option payload (?h' b) = map_option payload (h b)"
      using mr(3) by (simp add: payload_def)
    moreover have "?h' mouse = h mouse" using am by simp
    ultimately show ?thesis using run by blast
  next
    case False
    from Cons.IH [OF mr(4) mouse_in False] obtain h' where
      h': "unlink_from mouse (m_next mr) h = Some h'"
        "mouse_list h' (m_next mr) (remove1 mouse as)"
        "\<forall>b. b \<notin> set as \<longrightarrow> h' b = h b"
        "\<forall>b. map_option payload (h' b) = map_option payload (h b)"
        "h' mouse = h mouse"
      by blast
    have run: "unlink_from mouse m h = Some h'"
      using mr False h'(1) by (subst unlink_from.simps) simp
    from h'(3) a_notin mr(3) have "h' a = Some mr" by simp
    with h'(2) mr am have "mouse_list h' m (remove1 mouse (a # as))" by simp
    moreover from h'(3) have "\<forall>b. b \<notin> set (a # as) \<longrightarrow> h' b = h b" by simp
    ultimately show ?thesis using run h'(4,5) by blast
  qed
qed

lemma unregister_absent:
  assumes "mouse_list (heap s) (mice s) xs" "mouse \<notin> set xs" "mouse \<noteq> 0" "heap s mouse = Some mr"
  shows "unregister_mouse mouse s =
           Some (s\<lparr>heap := (heap s)(mouse := None), trace := trace s @ release_calls mouse mr\<rparr>)"
proof -
  from assms(1) have "mice s = (case xs of [] \<Rightarrow> 0 | b # _ \<Rightarrow> b)" by (rule mouse_list_head)
  with assms(2,3) have "mice s \<noteq> mouse" by (cases xs) auto
  moreover have "unlink_from mouse (mice s) (heap s) = Some (heap s)"
    using assms(1,2,3) by (rule unlink_absent)
  ultimately show ?thesis
    using assms(3,4) by (simp add: unregister_mouse_def release_calls_def)
qed

lemma unregister_present:
  assumes "mouse_list (heap s) (mice s) xs" "mouse \<in> set xs" "heap s mouse = Some mr"
  shows "\<exists>s'. unregister_mouse mouse s = Some s'
      \<and> mouse_list (heap s') (mice s') (remove1 mouse xs)
      \<and> trace s' = trace s @ release_calls mouse mr
      \<and> heap s' mouse = None
      \<and> (\<forall>b. b \<noteq> mouse \<longrightarrow> map_option payload (heap s' b) = map_option payload (heap s b))
      \<and> (\<forall>b. b \<notin> set xs \<longrightarrow> heap s' b = heap s b)
      \<and> stopped s' = stopped s"
proof -
  from assms(1,2) have nz: "mouse \<noteq> 0" using mouse_list_nonnull by metis
  from assms(1) have dist: "distinct xs" by (rule mouse_list_distinct)
  show ?thesis
  proof (cases "mice s = mouse")
    case True
    with assms(1,2) obtain as where xs: "xs = mouse # as"
      using mouse_list_head [OF assms(1)] by (cases xs) auto
    with assms(1,3) have tl: "mouse_list (heap s) (m_next mr) as" by simp
    from dist xs have notin: "mouse \<notin> set as" by simp
    let ?s' = "s\<lparr>mice := m_next mr, heap := (heap s)(mouse := None),
                  trace := trace s @ release_calls mouse mr\<rparr>"
    have "unregister_mouse mouse s = Some ?s'"
      using True nz assms(3) by (simp add: unregister_mouse_def release_calls_def)
    moreover have "mouse_list (heap ?s') (mice ?s') (remove1 mouse xs)"
      using tl notin xs by (simp add: mouse_list_update_other)
    ultimately show ?thesis using assms(2) by (intro exI [of _ ?s']) auto
  next
    case False
    from unlink_present [OF assms(1,2) False] obtain h' where
      h': "unlink_from mouse (mice s) (heap s) = Some h'"
        "mouse_list h' (mice s) (remove1 mouse xs)"
        "\<forall>b. b \<notin> set xs \<longrightarrow> h' b = heap s b"
        "\<forall>b. map_option payload (h' b) = map_option payload (heap s b)"
        "h' mouse = heap s mouse"
      by blast
    let ?s' = "s\<lparr>heap := h'(mouse := None), trace := trace s @ release_calls mouse mr\<rparr>"
    have "unregister_mouse mouse s = Some ?s'"
      using False nz assms(3) h'(1,5) by (simp add: unregister_mouse_def release_calls_def)
    moreover have "mouse \<notin> set (remove1 mouse xs)" using dist by simp
    then have "mouse_list (heap ?s') (mice ?s') (remove1 mouse xs)"
      using h'(2) by (simp add: mouse_list_update_other)
    ultimately show ?thesis using h'(3,4) assms(2) by (intro exI [of _ ?s']) auto
  qed
qed

text \<open>
  Claim C10. \<open>unregister_mouse\<close> called with a pointer that is not in the registry list
  (null, or a record allocated but never linked, as after a failed registration) returns
  and leaves the list as it was: the head pointer is the same, the same addresses are
  linked in the same order, and every linked record is untouched. Only the unlinked record
  itself is given back.
\<close>

theorem unregister_unlisted_keeps_registry:
  assumes "mouse_list (heap s) (mice s) xs" "mouse \<notin> set xs"
  shows "(mouse = 0 \<longrightarrow> unregister_mouse mouse s = Some s)
       \<and> (\<forall>mr. mouse \<noteq> 0 \<and> heap s mouse = Some mr \<longrightarrow>
            (\<exists>s'. unregister_mouse mouse s = Some s'
                \<and> mice s' = mice s
                \<and> mouse_list (heap s') (mice s') xs
                \<and> (\<forall>a. a \<noteq> mouse \<longrightarrow> heap s' a = heap s a)
                \<and> heap s' mouse = None))"
proof (intro conjI impI allI)
  assume "mouse = 0"
  then show "unregister_mouse mouse s = Some s" by (simp add: unregister_mouse_def)
next
  fix mr
  assume a: "mouse \<noteq> 0 \<and> heap s mouse = Some mr"
  let ?s' = "s\<lparr>heap := (heap s)(mouse := None), trace := trace s @ release_calls mouse mr\<rparr>"
  from a assms have "unregister_mouse mouse s = Some ?s'" by (simp add: unregister_absent)
  moreover have "mouse_list (heap ?s') (mice ?s') xs"
    using assms by (simp add: mouse_list_update_other)
  ultimately show "\<exists>s'. unregister_mouse mouse s = Some s'
                \<and> mice s' = mice s
                \<and> mouse_list (heap s') (mice s') xs
                \<and> (\<forall>a. a \<noteq> mouse \<longrightarrow> heap s' a = heap s a)
                \<and> heap s' mouse = None"
    by (intro exI [of _ ?s']) simp
qed

theorem unregister_unlisted_keeps_registry_witness:
  "mouse_list (heap (two_mice 0 0)) (mice (two_mice 0 0)) [1, 2]
   \<and> unregister_mouse 0 (two_mice 0 0) = Some (two_mice 0 0)
   \<and> (\<exists>s'. unregister_mouse 3 (two_mice 0 0) = Some s'
          \<and> mice s' = 1
          \<and> mouse_list (heap s') (mice s') [1, 2]
          \<and> heap s' 1 = Some (mouse_no 1 0 2)
          \<and> heap s' 2 = Some (mouse_no 2 0 0)
          \<and> heap s' 3 = None)"
proof -
  have l: "mouse_list (heap (two_mice 0 0)) (mice (two_mice 0 0)) [1, 2]"
    by (simp add: two_mice_def mouse_no_def)
  have n: "(3::nat) \<notin> set [1, 2]" "(0::nat) \<notin> set [1, 2]" by simp_all
  have h: "(3::nat) \<noteq> 0 \<and> heap (two_mice 0 0) 3 = Some (mouse_no 3 0 0)"
    by (simp add: two_mice_def)
  from unregister_unlisted_keeps_registry [OF l n(1)] h
  obtain s' where "unregister_mouse 3 (two_mice 0 0) = Some s'" "mice s' = mice (two_mice 0 0)"
    "mouse_list (heap s') (mice s') [1, 2]" "\<forall>a. a \<noteq> 3 \<longrightarrow> heap s' a = heap (two_mice 0 0) a"
    "heap s' 3 = None"
    by blast
  then have "\<exists>s'. unregister_mouse 3 (two_mice 0 0) = Some s'
          \<and> mice s' = 1
          \<and> mouse_list (heap s') (mice s') [1, 2]
          \<and> heap s' 1 = Some (mouse_no 1 0 2)
          \<and> heap s' 2 = Some (mouse_no 2 0 0)
          \<and> heap s' 3 = None"
    by (intro exI [of _ s']) (simp add: two_mice_def)
  with l unregister_unlisted_keeps_registry [OF l n(2)] show ?thesis by simp
qed

section \<open>Registration\<close>

lemma fresh_not_listed: "mouse_list h p xs \<Longrightarrow> h a = None \<Longrightarrow> a \<notin> set xs"
  using mouse_list_allocated [of h p xs a] by auto

lemma cleanup_fresh:
  assumes "mouse_list (heap s) (mice s) xs" "a \<noteq> 0" "heap s a = None"
  shows "unregister_mouse a (s\<lparr>heap := (heap s)(a \<mapsto> m), trace := t\<rparr>) =
           Some (s\<lparr>trace := t @ release_calls a m\<rparr>)"
proof -
  let ?s1 = "s\<lparr>heap := (heap s)(a \<mapsto> m), trace := t\<rparr>"
  from assms(1,3) have n: "a \<notin> set xs" by (rule fresh_not_listed)
  with assms(1) have "mouse_list (heap ?s1) (mice ?s1) xs"
    by (simp add: mouse_list_update_other)
  from unregister_absent [OF this n assms(2), of m]
  have "unregister_mouse a ?s1 =
      Some (?s1\<lparr>heap := (heap ?s1)(a := None), trace := trace ?s1 @ release_calls a m\<rparr>)"
    by simp
  moreover have "(heap s)(a := None) = heap s" using assms(3) by (rule fun_upd_idem)
  ultimately show ?thesis by simp
qed

lemma register_ineligible:
  assumes "mouse_list (heap s) (mice s) xs" "start_with path (DEV_INPUT @ ''/event'')"
    "calloc_result pr \<noteq> 0" "heap s (calloc_result pr) = None"
    "0 \<le> new_from_fd_status pr" "\<not> (has_EV_REL pr \<and> has_BTN_MIDDLE pr)"
  shows "check_register_mouse (Some path) pr s =
     Some (s\<lparr>trace := trace s @
       [Open path, NewFromFd (open_result pr),
        Ungrab (new_from_fd_dev pr), FreeDev (new_from_fd_dev pr), Close (open_result pr),
        FreeMouse (calloc_result pr)]\<rparr>)"
  using assms(2,3,5,6) cleanup_fresh [OF assms(1,3,4)]
  by (auto simp add: check_register_mouse_def Let_def release_calls_def)

lemma register_sink_fails:
  assumes "mouse_list (heap s) (mice s) xs" "start_with path (DEV_INPUT @ ''/event'')"
    "calloc_result pr \<noteq> 0" "heap s (calloc_result pr) = None"
    "0 \<le> new_from_fd_status pr" "has_EV_REL pr" "has_BTN_MIDDLE pr"
    "uinput_create_status pr < 0"
  shows "check_register_mouse (Some path) pr s =
     Some (s\<lparr>trace := trace s @
       [Open path, NewFromFd (open_result pr), UinputCreate (new_from_fd_dev pr),
        Msg (FailedUinput path (uinput_create_status pr)),
        Ungrab (new_from_fd_dev pr), FreeDev (new_from_fd_dev pr), Close (open_result pr),
        FreeMouse (calloc_result pr)]\<rparr>)"
  using assms(2,3,5-) cleanup_fresh [OF assms(1,3,4)]
  by (simp add: check_register_mouse_def Let_def release_calls_def)

lemma register_grab_fails:
  assumes "mouse_list (heap s) (mice s) xs" "start_with path (DEV_INPUT @ ''/event'')"
    "calloc_result pr \<noteq> 0" "heap s (calloc_result pr) = None"
    "0 \<le> new_from_fd_status pr" "has_EV_REL pr" "has_BTN_MIDDLE pr"
    "0 \<le> uinput_create_status pr" "grab_status pr < 0"
  shows "check_register_mouse (Some path) pr s =
     Some (s\<lparr>trace := trace s @
       [Open path, NewFromFd (open_result pr), UinputCreate (new_from_fd_dev pr),
        Grab (new_from_fd_dev pr), Msg (FailedGrab path (grab_status pr)),
        Ungrab (new_from_fd_dev pr), FreeDev (new_from_fd_dev pr), Close (open_result pr),
        FreeMouse (calloc_result pr)]\<rparr>)"
  using assms(2,3,5-) cleanup_fresh [OF assms(1,3,4)]
  by (simp add: check_register_mouse_def Let_def release_calls_def)

lemma register_success:
  assumes "start_with path (DEV_INPUT @ ''/event'')"
    "calloc_result pr \<noteq> 0"
    "0 \<le> new_from_fd_status pr" "has_EV_REL pr" "has_BTN_MIDDLE pr"
    "0 \<le> uinput_create_status pr" "0 \<le> grab_status pr"
  shows "check_register_mouse (Some path) pr s =
     Some (s\<lparr>mice := calloc_result pr,
             heap := (heap s)(calloc_result pr \<mapsto>
               \<lparr>m_fd = open_result pr, m_dev = new_from_fd_dev pr,
                m_dev_uinput = uinput_create_dev pr, m_state = 0, m_next = mice s\<rparr>),
             trace := trace s @
               [Open path, NewFromFd (open_result pr), UinputCreate (new_from_fd_dev pr),
                Grab (new_from_fd_dev pr), Msg (Registered (dev_name pr) path)]\<rparr>)"
  using assms by (simp add: check_register_mouse_def Let_def)

lemma register_success_list:
  assumes "mouse_list (heap s) (mice s) xs" "a \<noteq> 0" "heap s a = None" "m_next m = mice s"
  shows "mouse_list ((heap s)(a \<mapsto> m)) a (a # xs)"
  using assms fresh_not_listed [OF assms(1,3)] by (simp add: mouse_list_update_other)

lemma example_list: "mouse_list (heap (two_mice st1 st2)) (mice (two_mice st1 st2)) [1, 2]"
  by (simp add: two_mice_def mouse_no_def)

lemma example_path: "start_with ''/dev/input/event5'' (DEV_INPUT @ ''/event'')"
  by (simp add: start_with_def DEV_INPUT_def)

text \<open>
  Claim C5. For a candidate under the event-node prefix whose descriptor was built, a
  missing relative-motion capability or a missing middle button means: the registry and
  the memory are exactly as before, the device descriptor is freed, the file descriptor is
  closed, the record is freed, and no message is printed. With both capabilities the
  attempt goes on to create the sink, and when sink creation and grab succeed the mouse
  becomes the head of the registry.
\<close>

theorem only_mice_are_registered:
  assumes "mouse_list (heap s) (mice s) xs" "start_with path (DEV_INPUT @ ''/event'')"
    "calloc_result pr \<noteq> 0" "heap s (calloc_result pr) = None" "0 \<le> new_from_fd_status pr"
  shows "(\<not> (has_EV_REL pr \<and> has_BTN_MIDDLE pr) \<longrightarrow>
           check_register_mouse (Some path) pr s =
             Some (s\<lparr>trace := trace s @
               [Open path, NewFromFd (open_result pr),
                Ungrab (new_from_fd_dev pr), FreeDev (new_from_fd_dev pr), Close (open_result pr),
                FreeMouse (calloc_result pr)]\<rparr>))
       \<and> (has_EV_REL pr \<and> has_BTN_MIDDLE pr \<longrightarrow>
           (\<exists>s'. check_register_mouse (Some path) pr s = Some s'
              \<and> UinputCreate (new_from_fd_dev pr) \<in> set (trace s')))
       \<and> (has_EV_REL pr \<and> has_BTN_MIDDLE pr \<and> 0 \<le> uinput_create_status pr \<and> 0 \<le> grab_status pr \<longrightarrow>
           (\<exists>s'. check_register_mouse (Some path) pr s = Some s'
              \<and> mice s' = calloc_result pr
              \<and> mouse_list (heap s') (mice s') (calloc_result pr # xs)))"
proof (intro conjI impI)
  assume "\<not> (has_EV_REL pr \<and> has_BTN_MIDDLE pr)"
  with assms show "check_register_mouse (Some path) pr s =
             Some (s\<lparr>trace := trace s @
               [Open path, NewFromFd (open_result pr),
                Ungrab (new_from_fd_dev pr), FreeDev (new_from_fd_dev pr), Close (open_result pr),
                FreeMouse (calloc_result pr)]\<rparr>)"
    by (rule register_ineligible)
next
  assume el: "has_EV_REL pr \<and> has_BTN_MIDDLE pr"
  consider "uinput_create_status pr < 0"
    | "0 \<le> uinput_create_status pr" "grab_status pr < 0"
    | "0 \<le> uinput_create_status pr" "0 \<le> grab_status pr"
    by linarith
  then show "\<exists>s'. check_register_mouse (Some path) pr s = Some s'
              \<and> UinputCreate (new_from_fd_dev pr) \<in> set (trace s')"
  proof cases
    case 1
    with assms el show ?thesis by (simp add: register_sink_fails)
  next
    case 2
    with assms el show ?thesis by (simp add: register_grab_fails)
  next
    case 3
    with assms el show ?thesis by (simp add: register_success)
  qed
next
  assume ok: "has_EV_REL pr \<and> has_BTN_MIDDLE pr \<and> 0 \<le> uinput_create_status pr \<and> 0 \<le> grab_status pr"
  let ?m = "\<lparr>m_fd = open_result pr, m_dev = new_from_fd_dev pr,
             m_dev_uinput = uinput_create_dev pr, m_state = 0, m_next = mice s\<rparr>"
  have "mouse_list ((heap s)(calloc_result pr \<mapsto> ?m)) (calloc_result pr) (calloc_result pr # xs)"
    using assms(1,3,4) by (rule register_success_list) simp
  then show "\<exists>s'. check_register_mouse (Some path) pr s = Some s'
              \<and> mice s' = calloc_result pr
              \<and> mouse_list (heap s') (mice s') (calloc_result pr # xs)"
    using ok assms(2,3,5) by (simp add: register_success)
qed

theorem only_mice_are_registered_witness:
  "check_register_mouse (Some ''/dev/input/event5'') (example_probe False True 0 0) (two_mice 0 0) =
     Some ((two_mice 0 0)\<lparr>trace :=
       [Open ''/dev/input/event5'', NewFromFd 14, Ungrab 24, FreeDev 24, Close 14, FreeMouse 4]\<rparr>)
   \<and> check_register_mouse (Some ''/dev/input/event5'') (example_probe True False 0 0) (two_mice 0 0) =
     Some ((two_mice 0 0)\<lparr>trace :=
       [Open ''/dev/input/event5'', NewFromFd 14, Ungrab 24, FreeDev 24, Close 14, FreeMouse 4]\<rparr>)
   \<and> (\<exists>s'. check_register_mouse (Some ''/dev/input/event5'') (example_probe True True 0 0) (two_mice 0 0) = Some s'
          \<and> mice s' = 4 \<and> mouse_list (heap s') (mice s') [4, 1, 2])"
  using only_mice_are_registered [OF example_list example_path, of "example_probe False True 0 0" 0 0]
    only_mice_are_registered [OF example_list example_path, of "example_probe True False 0 0" 0 0]
    only_mice_are_registered [OF example_list example_path, of "example_probe True True 0 0" 0 0]
  by (simp add: example_probe_def two_mice_def)

text \<open>
  Claim C6, as the code has it. With both capabilities present, a failing sink creation or
  a failing grab prints the failure, frees the device descriptor, closes the file
  descriptor, frees the record and leaves registry and memory exactly as before; these are
  all the calls made, so a sink already created is left alone. When both succeed the new
  record is linked in front of the old list.
\<close>

theorem failed_registration_rolls_back:
  assumes "mouse_list (heap s) (mice s) xs" "start_with path (DEV_INPUT @ ''/event'')"
    "calloc_result pr \<noteq> 0" "heap s (calloc_result pr) = None" "0 \<le> new_from_fd_status pr"
    "has_EV_REL pr" "has_BTN_MIDDLE pr"
  shows "(uinput_create_status pr < 0 \<longrightarrow>
           check_register_mouse (Some path) pr s =
             Some (s\<lparr>trace := trace s @
               [Open path, NewFromFd (open_result pr), UinputCreate (new_from_fd_dev pr),
                Msg (FailedUinput path (uinput_create_status pr)),
                Ungrab (new_from_fd_dev pr), FreeDev (new_from_fd_dev pr), Close (open_result pr),
                FreeMouse (calloc_result pr)]\<rparr>))
       \<and> (0 \<le> uinput_create_status pr \<and> grab_status pr < 0 \<longrightarrow>
           check_register_mouse (Some path) pr s =
             Some (s\<lparr>trace := trace s @
               [Open path, NewFromFd (open_result pr), UinputCreate (new_from_fd_dev pr),
                Grab (new_from_fd_dev pr), Msg (FailedGrab path (grab_status pr)),
                Ungrab (new_from_fd_dev pr), FreeDev (new_from_fd_dev pr), Close (open_result pr),
                FreeMouse (calloc_result pr)]\<rparr>))
       \<and> (0 \<le> uinput_create_status pr \<and> 0 \<le> grab_status pr \<longrightarrow>
           check_register_mouse (Some path) pr s =
             Some (s\<lparr>mice := calloc_result pr,
                     heap := (heap s)(calloc_result pr \<mapsto>
                       \<lparr>m_fd = open_result pr, m_dev = new_from_fd_dev pr,
                        m_dev_uinput = uinput_create_dev pr, m_state = 0, m_next = mice s\<rparr>),
                     trace := trace s @
                       [Open path, NewFromFd (open_result pr), UinputCreate (new_from_fd_dev pr),
                        Grab (new_from_fd_dev pr), Msg (Registered (dev_name pr) path)]\<rparr>)
           \<and> mouse_list
                ((heap s)(calloc_result pr \<mapsto>
                       \<lparr>m_fd = open_result pr, m_dev = new_from_fd_dev pr,
                        m_dev_uinput = uinput_create_dev pr, m_state = 0, m_next = mice s\<rparr>))
                (calloc_result pr) (calloc_result pr # xs))"
proof (intro conjI impI)
  assume "uinput_create_status pr < 0"
  with assms show "check_register_mouse (Some path) pr s =
             Some (s\<lparr>trace := trace s @
               [Open path, NewFromFd (open_result pr), UinputCreate (new_from_fd_dev pr),
                Msg (FailedUinput path (uinput_create_status pr)),
                Ungrab (new_from_fd_dev pr), FreeDev (new_from_fd_dev pr), Close (open_result pr),
                FreeMouse (calloc_result pr)]\<rparr>)"
    by (rule register_sink_fails)
next
  assume "0 \<le> uinput_create_status pr \<and> grab_status pr < 0"
  with assms show "check_register_mouse (Some path) pr s =
             Some (s\<lparr>trace := trace s @
               [Open path, NewFromFd (open_result pr), UinputCreate (new_from_fd_dev pr),
                Grab (new_from_fd_dev pr), Msg (FailedGrab path (grab_status pr)),
                Ungrab (new_from_fd_dev pr), FreeDev (new_from_fd_dev pr), Close (open_result pr),
                FreeMouse (calloc_result pr)]\<rparr>)"
    by (intro register_grab_fails) simp_all
next
  assume "0 \<le> uinput_create_status pr \<and> 0 \<le> grab_status pr"
  with assms show "check_register_mouse (Some path) pr s =
             Some (s\<lparr>mice := calloc_result pr,
                     heap := (heap s)(calloc_result pr \<mapsto>
                       \<lparr>m_fd = open_result pr, m_dev = new_from_fd_dev pr,
                        m_dev_uinput = uinput_create_dev pr, m_state = 0, m_next = mice s\<rparr>),
                     trace := trace s @
                       [Open path, NewFromFd (open_result pr), UinputCreate (new_from_fd_dev pr),
                        Grab (new_from_fd_dev pr), Msg (Registered (dev_name pr) path)]\<rparr>)"
    by (intro register_success) simp_all
next
  show "mouse_list
                ((heap s)(calloc_result pr \<mapsto>
                       \<lparr>m_fd = open_result pr, m_dev = new_from_fd_dev pr,
                        m_dev_uinput = uinput_create_dev pr, m_state = 0, m_next = mice s\<rparr>))
                (calloc_result pr) (calloc_result pr # xs)"
    using assms(1,3,4) by (rule register_success_list) simp
qed

theorem failed_registration_rolls_back_witness:
  "check_register_mouse (Some ''/dev/input/event5'') (example_probe True True (- 2) 0) (two_mice 0 0) =
     Some ((two_mice 0 0)\<lparr>trace :=
       [Open ''/dev/input/event5'', NewFromFd 14, UinputCreate 24,
        Msg (FailedUinput ''/dev/input/event5'' (- 2)),
        Ungrab 24, FreeDev 24, Close 14, FreeMouse 4]\<rparr>)
   \<and> check_register_mouse (Some ''/dev/input/event5'') (example_probe True True 0 (- 16)) (two_mice 0 0) =
     Some ((two_mice 0 0)\<lparr>trace :=
       [Open ''/dev/input/event5'', NewFromFd 14, UinputCreate 24, Grab 24,
        Msg (FailedGrab ''/dev/input/event5'' (- 16)),
        Ungrab 24, FreeDev 24, Close 14, FreeMouse 4]\<rparr>)
   \<and> check_register_mouse (Some ''/dev/input/event5'') (example_probe True True 0 0) (two_mice 0 0) =
     Some ((two_mice 0 0)\<lparr>mice := 4,
        heap := (heap (two_mice 0 0))(4 \<mapsto>
          \<lparr>m_fd = 14, m_dev = 24, m_dev_uinput = 34, m_state = 0, m_next = 1\<rparr>),
        trace := [Open ''/dev/input/event5'', NewFromFd 14, UinputCreate 24, Grab 24,
          Msg (Registered ''mouse'' ''/dev/input/event5'')]\<rparr>)"
  using failed_registration_rolls_back [OF example_list example_path, of "example_probe True True (- 2) 0" 0 0]
    failed_registration_rolls_back [OF example_list example_path, of "example_probe True True 0 (- 16)" 0 0]
    failed_registration_rolls_back [OF example_list example_path, of "example_probe True True 0 0" 0 0]
  by (simp add: example_probe_def two_mice_def)

text \<open>
  A registration whose grab fails after the sink (handle 34) was created: the calls made
  are the ones listed, and destroying that sink is not among them.
\<close>

theorem created_sink_is_not_destroyed:
  "check_register_mouse (Some ''/dev/input/event5'') (example_probe True True 0 (- 16)) (two_mice 0 0) =
     Some ((two_mice 0 0)\<lparr>trace :=
       [Open ''/dev/input/event5'', NewFromFd 14, UinputCreate 24, Grab 24,
        Msg (FailedGrab ''/dev/input/event5'' (- 16)),
        Ungrab 24, FreeDev 24, Close 14, FreeMouse 4]\<rparr>)
   \<and> UinputDestroy (uinput_create_dev (example_probe True True 0 (- 16))) \<notin> set
       [Open ''/dev/input/event5'', NewFromFd 14, UinputCreate 24, Grab 24,
        Msg (FailedGrab ''/dev/input/event5'' (- 16)),
        Ungrab 24, FreeDev 24, Close 14, FreeMouse 4]"
  using register_grab_fails [OF example_list example_path, of "example_probe True True 0 (- 16)" 0 0]
  by (simp add: example_probe_def two_mice_def)

section \<open>The sweep and the shutdown\<close>

lemma payload_eq_dead:
  "map_option payload (h' b) = map_option payload (h b) \<Longrightarrow> is_dead h' b = is_dead h b"
  by (cases "h b"; cases "h' b") (auto simp add: is_dead_def payload_def)

lemma payload_eq_filter:
  "(\<And>b. b \<in> set xs \<Longrightarrow> map_option payload (h' b) = map_option payload (h b)) \<Longrightarrow>
   filter (is_dead h') xs = filter (is_dead h) xs"
  using payload_eq_dead [of h' _ h] by (intro filter_cong) blast+

lemma payload_eq_filter_not:
  "(\<And>b. b \<in> set xs \<Longrightarrow> map_option payload (h' b) = map_option payload (h b)) \<Longrightarrow>
   filter (\<lambda>b. \<not> is_dead h' b) xs = filter (\<lambda>b. \<not> is_dead h b) xs"
  using payload_eq_dead [of h' _ h] by (intro filter_cong) blast+

lemma payload_eq_release:
  "map_option payload (h' b) = map_option payload (h b) \<Longrightarrow>
   (case h' b of None \<Rightarrow> [] | Some mr \<Rightarrow> release_calls b mr) =
   (case h b of None \<Rightarrow> [] | Some mr \<Rightarrow> release_calls b mr)"
  by (cases "h b"; cases "h' b") (auto simp add: release_calls_def payload_def)

lemma payload_eq_releases:
  "(\<And>b. b \<in> set xs \<Longrightarrow> map_option payload (h' b) = map_option payload (h b)) \<Longrightarrow>
   releases h' xs = releases h xs"
  unfolding releases_def by (rule arg_cong [where f = concat], rule map_cong) (auto intro: payload_eq_release)

lemma releases_Cons:
  "h a = Some mr \<Longrightarrow> releases h (a # as) = release_calls a mr @ releases h as"
  by (simp add: releases_def)

lemma releases_Nil [simp]: "releases h [] = []"
  by (simp add: releases_def)

lemma sweep_from_null: "sweep_from 0 s = Some s"
  by (subst sweep_from.simps) simp

lemma sweep_from_spec:
  assumes "mouse_list (heap s) (mice s) (keep @ rest)"
    "mouse = (case rest of [] \<Rightarrow> 0 | a # _ \<Rightarrow> a)"
  shows "\<exists>s'. sweep_from mouse s = Some s'
     \<and> mouse_list (heap s') (mice s') (keep @ filter (\<lambda>b. \<not> is_dead (heap s) b) rest)
     \<and> trace s' = trace s @ releases (heap s) (filter (is_dead (heap s)) rest)
     \<and> (\<forall>b. b \<in> set rest \<and> is_dead (heap s) b \<longrightarrow> heap s' b = None)
     \<and> (\<forall>b. \<not> (b \<in> set rest \<and> is_dead (heap s) b) \<longrightarrow>
           map_option payload (heap s' b) = map_option payload (heap s b))
     \<and> stopped s' = stopped s"
  using assms
proof (induction rest arbitrary: s keep mouse)
  case Nil
  then show ?case by (simp add: sweep_from_null)
next
  case (Cons a as)
  let ?xs = "keep @ a # as"
  from Cons.prems have m: "mouse = a" by simp
  from Cons.prems(1) have dist: "distinct ?xs" by (rule mouse_list_distinct)
  from Cons.prems(1) have "mouse_list (heap s) a (a # as)" by (rule mouse_list_suffix)
  then obtain mr where mr: "a \<noteq> 0" "heap s a = Some mr" "mouse_list (heap s) (m_next mr) as"
    by auto
  from mr(3) have nxt: "m_next mr = (case as of [] \<Rightarrow> 0 | b # _ \<Rightarrow> b)" by (rule mouse_list_head)
  show ?case
  proof (cases "m_state mr AND MOUSE_STATE_DEAD \<noteq> 0")
    case True
    then have dead: "is_dead (heap s) a" using mr(2) by (simp add: is_dead_def)
    have "a \<in> set ?xs" by simp
    from unregister_present [OF Cons.prems(1) this mr(2)] obtain s1 where
      s1: "unregister_mouse a s = Some s1"
        "mouse_list (heap s1) (mice s1) (remove1 a ?xs)"
        "trace s1 = trace s @ release_calls a mr"
        "heap s1 a = None"
        "\<forall>b. b \<noteq> a \<longrightarrow> map_option payload (heap s1 b) = map_option payload (heap s b)"
        "stopped s1 = stopped s"
      by blast
    from dist have "remove1 a ?xs = keep @ as" by (simp add: remove1_append)
    with s1(2) have l1: "mouse_list (heap s1) (mice s1) (keep @ as)" by simp
    from dist have a_as: "a \<notin> set as" by simp
    have same: "\<And>b. b \<in> set as \<Longrightarrow> map_option payload (heap s1 b) = map_option payload (heap s b)"
      using s1(5) a_as by auto
    from Cons.IH [OF l1 nxt] obtain s' where
      s': "sweep_from (m_next mr) s1 = Some s'"
        "mouse_list (heap s') (mice s') (keep @ filter (\<lambda>b. \<not> is_dead (heap s1) b) as)"
        "trace s' = trace s1 @ releases (heap s1) (filter (is_dead (heap s1)) as)"
        "\<forall>b. b \<in> set as \<and> is_dead (heap s1) b \<longrightarrow> heap s' b = None"
        "\<forall>b. \<not> (b \<in> set as \<and> is_dead (heap s1) b) \<longrightarrow>
           map_option payload (heap s' b) = map_option payload (heap s1 b)"
        "stopped s' = stopped s1"
      by blast
    have f1: "filter (\<lambda>b. \<not> is_dead (heap s1) b) as = filter (\<lambda>b. \<not> is_dead (heap s) b) as"
      using same by (rule payload_eq_filter_not)
    have f2: "filter (is_dead (heap s1)) as = filter (is_dead (heap s)) as"
      using same by (rule payload_eq_filter)
    have f3: "releases (heap s1) (filter (is_dead (heap s)) as) = releases (heap s) (filter (is_dead (heap s)) as)"
      by (rule payload_eq_releases) (simp add: same)
    have d: "\<And>b. b \<in> set as \<Longrightarrow> is_dead (heap s1) b = is_dead (heap s) b"
      using same by (rule payload_eq_dead)
    have run: "sweep_from mouse s = Some s'"
      using m mr True s1(1) s'(1) by (subst sweep_from.simps) simp
    have c1: "mouse_list (heap s') (mice s') (keep @ filter (\<lambda>b. \<not> is_dead (heap s) b) (a # as))"
      using s'(2) f1 dead by simp
    have c2: "trace s' = trace s @ releases (heap s) (filter (is_dead (heap s)) (a # as))"
      using s'(3) s1(3) f2 f3 dead mr(2) by (simp add: releases_Cons)
    have a_s': "heap s' a = None"
    proof -
      have "map_option payload (heap s' a) = map_option payload (heap s1 a)"
        using s'(5) a_as by blast
      with s1(4) show ?thesis by simp
    qed
    have c3: "\<forall>b. b \<in> set (a # as) \<and> is_dead (heap s) b \<longrightarrow> heap s' b = None"
      using s'(4) d a_s' by auto
    have c4: "\<forall>b. \<not> (b \<in> set (a # as) \<and> is_dead (heap s) b) \<longrightarrow>
           map_option payload (heap s' b) = map_option payload (heap s b)"
    proof (intro allI impI)
      fix b
      assume nb: "\<not> (b \<in> set (a # as) \<and> is_dead (heap s) b)"
      with dead have ba: "b \<noteq> a" by auto
      with nb d have "\<not> (b \<in> set as \<and> is_dead (heap s1) b)" by auto
      with s'(5) have "map_option payload (heap s' b) = map_option payload (heap s1 b)" by blast
      with s1(5) ba show "map_option payload (heap s' b) = map_option payload (heap s b)" by simp
    qed
    have c5: "stopped s' = stopped s" using s'(6) s1(6) by simp
    from run c1 c2 c3 c4 c5 show ?thesis by blast
  next
    case False
    then have alive: "\<not> is_dead (heap s) a" using mr(2) by (simp add: is_dead_def)
    from Cons.prems(1) have l1: "mouse_list (heap s) (mice s) ((keep @ [a]) @ as)" by simp
    from Cons.IH [OF l1 nxt] obtain s' where
      s': "sweep_from (m_next mr) s = Some s'"
        "mouse_list (heap s') (mice s') ((keep @ [a]) @ filter (\<lambda>b. \<not> is_dead (heap s) b) as)"
        "trace s' = trace s @ releases (heap s) (filter (is_dead (heap s)) as)"
        "\<forall>b. b \<in> set as \<and> is_dead (heap s) b \<longrightarrow> heap s' b = None"
        "\<forall>b. \<not> (b \<in> set as \<and> is_dead (heap s) b) \<longrightarrow>
           map_option payload (heap s' b) = map_option payload (heap s b)"
        "stopped s' = stopped s"
      by blast
    have run: "sweep_from mouse s = Some s'"
      using m mr False s'(1) by (subst sweep_from.simps) simp
    have c1: "mouse_list (heap s') (mice s') (keep @ filter (\<lambda>b. \<not> is_dead (heap s) b) (a # as))"
      using s'(2) alive by simp
    have c2: "trace s' = trace s @ releases (heap s) (filter (is_dead (heap s)) (a # as))"
      using s'(3) alive by simp
    have c3: "\<forall>b. b \<in> set (a # as) \<and> is_dead (heap s) b \<longrightarrow> heap s' b = None"
      using s'(4) alive by auto
    have c4: "\<forall>b. \<not> (b \<in> set (a # as) \<and> is_dead (heap s) b) \<longrightarrow>
           map_option payload (heap s' b) = map_option payload (heap s b)"
      using s'(5) alive by auto
    from run c1 c2 c3 c4 s'(6) show ?thesis by blast
  qed
qed

lemma DEAD_nonzero: "MOUSE_STATE_DEAD \<noteq> 0"
  by (simp add: MOUSE_STATE_DEAD_def)

lemma mark_dead_from_spec:
  "mouse_list (heap s) p rest \<Longrightarrow>
   \<exists>s'. mark_dead_from p s = Some s'
     \<and> (\<forall>b. heap s' b =
            (if b \<in> set rest
             then map_option (\<lambda>mr. mr\<lparr>m_state := m_state mr OR MOUSE_STATE_DEAD\<rparr>) (heap s b)
             else heap s b))
     \<and> mice s' = mice s \<and> trace s' = trace s \<and> stopped s' = stopped s"
proof (induction rest arbitrary: s p)
  case Nil
  then show ?case by (subst mark_dead_from.simps) simp
next
  case (Cons a as)
  from Cons.prems obtain mr where mr: "p = a" "a \<noteq> 0" "heap s a = Some mr" "mouse_list (heap s) (m_next mr) as"
    by auto
  from Cons.prems have a_as: "a \<notin> set as" by (rule mouse_list_head_notin_tail)
  let ?s1 = "s\<lparr>heap := (heap s)(a \<mapsto> mr\<lparr>m_state := m_state mr OR MOUSE_STATE_DEAD\<rparr>)\<rparr>"
  have "mouse_list (heap ?s1) (m_next mr) as"
    using mr(4) a_as by (simp add: mouse_list_update_other)
  from Cons.IH [OF this] obtain s' where
    s': "mark_dead_from (m_next mr) ?s1 = Some s'"
      "\<forall>b. heap s' b =
            (if b \<in> set as
             then map_option (\<lambda>mr. mr\<lparr>m_state := m_state mr OR MOUSE_STATE_DEAD\<rparr>) (heap ?s1 b)
             else heap ?s1 b)"
      "mice s' = mice ?s1" "trace s' = trace ?s1" "stopped s' = stopped ?s1"
    by blast
  have run: "mark_dead_from p s = Some s'"
    using mr s'(1) by (subst mark_dead_from.simps) simp
  have "\<forall>b. heap s' b =
            (if b \<in> set (a # as)
             then map_option (\<lambda>mr. mr\<lparr>m_state := m_state mr OR MOUSE_STATE_DEAD\<rparr>) (heap s b)
             else heap s b)"
    using s'(2) a_as mr(3) by auto
  with run s'(3,4,5) show ?case by simp
qed

lemma count_release_other:
  "a \<noteq> b \<Longrightarrow> count_list (release_calls b mr) (FreeMouse a) = 0"
  by (simp add: release_calls_def)

lemma count_release_self: "count_list (release_calls a mr) (FreeMouse a) = 1"
  by (simp add: release_calls_def)

lemma count_releases_absent:
  "a \<notin> set xs \<Longrightarrow> count_list (releases h xs) (FreeMouse a) = 0"
proof (induction xs)
  case Nil
  then show ?case by simp
next
  case (Cons b xs)
  then show ?case
    by (cases "h b") (auto simp add: releases_def count_release_other)
qed

lemma count_releases_once:
  "distinct xs \<Longrightarrow> a \<in> set xs \<Longrightarrow> h a \<noteq> None \<Longrightarrow> count_list (releases h xs) (FreeMouse a) = 1"
proof (induction xs)
  case Nil
  then show ?case by simp
next
  case (Cons b xs)
  show ?case
  proof (cases "a = b")
    case True
    with Cons.prems obtain mr where "h b = Some mr" by auto
    moreover from True Cons.prems have "count_list (releases h xs) (FreeMouse a) = 0"
      by (intro count_releases_absent) simp
    ultimately show ?thesis using True by (simp add: releases_Cons count_release_self)
  next
    case False
    with Cons have "count_list (releases h xs) (FreeMouse a) = 1" by simp
    with False show ?thesis
      by (cases "h b") (auto simp add: releases_def count_release_other)
  qed
qed

lemma releases_contain:
  assumes "a \<in> set xs" "h a = Some mr"
  shows "\<exists>pre post. releases h xs = pre @ release_calls a mr @ post"
proof -
  from assms(1) obtain us vs where "xs = us @ a # vs" by (auto dest: split_list)
  with assms(2) have "releases h xs = releases h us @ release_calls a mr @ releases h vs"
    by (simp add: releases_def)
  then show ?thesis by blast
qed

lemma releases_cong:
  assumes "\<And>b. b \<in> set xs \<Longrightarrow>
     map_option (\<lambda>r. (m_fd r, m_dev r)) (h' b) = map_option (\<lambda>r. (m_fd r, m_dev r)) (h b)"
  shows "releases h' xs = releases h xs"
proof -
  have "(case h' b of None \<Rightarrow> [] | Some mr \<Rightarrow> release_calls b mr) =
        (case h b of None \<Rightarrow> [] | Some mr \<Rightarrow> release_calls b mr)" if "b \<in> set xs" for b
    using assms [OF that] by (cases "h b"; cases "h' b") (auto simp add: release_calls_def)
  then show ?thesis by (simp add: releases_def cong: map_cong)
qed

lemma shutdown_spec:
  assumes "mouse_list (heap s) (mice s) xs"
  shows "\<exists>s1 s'. mark_dead_from (mice s) s = Some s1
     \<and> (\<forall>a\<in>set xs. is_dead (heap s1) a)
     \<and> unregister_dead_mice s1 = Some s'
     \<and> shutdown s = Some s'
     \<and> mice s' = 0
     \<and> (\<forall>a\<in>set xs. heap s' a = None)
     \<and> trace s' = trace s @ releases (heap s) xs"
proof -
  let ?kill = "\<lambda>mr. mr\<lparr>m_state := m_state mr OR MOUSE_STATE_DEAD\<rparr>"
  from mark_dead_from_spec [OF assms] obtain s1 where
    s1: "mark_dead_from (mice s) s = Some s1"
      "\<forall>b. heap s1 b = (if b \<in> set xs then map_option ?kill (heap s b) else heap s b)"
      "mice s1 = mice s" "trace s1 = trace s" "stopped s1 = stopped s"
    by blast
  have "mouse_list (heap s1) (mice s) xs = mouse_list (heap s) (mice s) xs"
    by (rule mouse_list_cong) (simp add: s1(2) option.map_comp comp_def)
  with assms s1(3) have l1: "mouse_list (heap s1) (mice s1) ([] @ xs)" by simp
  have dead: "\<And>b. b \<in> set xs \<Longrightarrow> is_dead (heap s1) b"
  proof -
    fix b assume b: "b \<in> set xs"
    with assms obtain mr where "heap s b = Some mr" by (auto dest: mouse_list_allocated)
    with b s1(2) show "is_dead (heap s1) b" by (simp add: is_dead_def DEAD_nonzero)
  qed
  have "mice s1 = (case xs of [] \<Rightarrow> 0 | a # _ \<Rightarrow> a)"
    using l1 by (simp add: mouse_list_head)
  from sweep_from_spec [OF l1 this] obtain s' where
    s': "sweep_from (mice s1) s1 = Some s'"
      "mouse_list (heap s') (mice s') ([] @ filter (\<lambda>b. \<not> is_dead (heap s1) b) xs)"
      "trace s' = trace s1 @ releases (heap s1) (filter (is_dead (heap s1)) xs)"
      "\<forall>b. b \<in> set xs \<and> is_dead (heap s1) b \<longrightarrow> heap s' b = None"
    by blast
  have all: "filter (is_dead (heap s1)) xs = xs" using dead by (simp add: filter_id_conv)
  have none: "filter (\<lambda>b. \<not> is_dead (heap s1) b) xs = []" using dead by (simp add: filter_empty_conv)
  have rel: "releases (heap s1) xs = releases (heap s) xs"
    by (rule releases_cong) (simp add: s1(2) option.map_comp comp_def)
  have c1: "\<forall>a\<in>set xs. is_dead (heap s1) a" using dead by blast
  have c2: "unregister_dead_mice s1 = Some s'"
    using s'(1) by (simp add: unregister_dead_mice_def)
  have c3: "shutdown s = Some s'"
    using s1(1) s'(1) by (simp add: shutdown_def unregister_dead_mice_def)
  from s'(2) none have c4: "mice s' = 0" by simp
  from s'(4) dead have c5: "\<forall>a\<in>set xs. heap s' a = None" by blast
  from s'(3) all rel s1(4) have c6: "trace s' = trace s @ releases (heap s) xs" by simp
  show ?thesis
    by (rule exI [of _ s1], rule exI [of _ s']) (intro conjI s1(1) c1 c2 c3 c4 c5 c6)
qed

lemma main_loop_stopped: "stopped s \<Longrightarrow> main_loop its s = shutdown s"
  by (cases its) simp_all

lemma ungrab_in_releases:
  assumes "a \<in> set xs" "h a = Some mr"
  shows "Ungrab (m_dev mr) \<in> set (releases h xs)"
proof -
  from releases_contain [of a xs h mr, OF assms] obtain pre post where
    "releases h xs = pre @ release_calls a mr @ post" by blast
  then show ?thesis by (simp add: release_calls_def)
qed


text \<open>
  Claim C8. Once the stop flag is set the main loop runs no further iteration: every mouse
  of the registry gets the dead bit, the sweep then returns, the registry is empty, every
  record that was registered is freed, and the calls made are exactly the releases of the
  registered mice in list order, so each mouse is released exactly once and the grab of
  each device is given up.
\<close>

theorem shutdown_sweeps_every_mouse:
  assumes "mouse_list (heap s) (mice s) xs" "stopped s"
  shows "\<exists>s1 s'. mark_dead_from (mice s) s = Some s1
     \<and> (\<forall>a\<in>set xs. is_dead (heap s1) a)
     \<and> unregister_dead_mice s1 = Some s'
     \<and> main_loop its s = Some s'
     \<and> mice s' = 0
     \<and> (\<forall>a\<in>set xs. heap s' a = None)
     \<and> trace s' = trace s @ releases (heap s) xs
     \<and> (\<forall>a\<in>set xs. count_list (releases (heap s) xs) (FreeMouse a) = 1)
     \<and> (\<forall>a\<in>set xs. \<forall>mr. heap s a = Some mr \<longrightarrow> Ungrab (m_dev mr) \<in> set (releases (heap s) xs))"
proof -
  from shutdown_spec [OF assms(1)] obtain s1 s' where
    s: "mark_dead_from (mice s) s = Some s1"
      "\<forall>a\<in>set xs. is_dead (heap s1) a"
      "unregister_dead_mice s1 = Some s'"
      "shutdown s = Some s'"
      "mice s' = 0"
      "\<forall>a\<in>set xs. heap s' a = None"
      "trace s' = trace s @ releases (heap s) xs"
    by blast
  from s(4) assms(2) have c4: "main_loop its s = Some s'" by (simp add: main_loop_stopped)
  from assms(1) have dist: "distinct xs" by (rule mouse_list_distinct)
  have c8: "\<forall>a\<in>set xs. count_list (releases (heap s) xs) (FreeMouse a) = 1"
  proof
    fix a assume a: "a \<in> set xs"
    with assms(1) have "heap s a \<noteq> None" by (auto dest: mouse_list_allocated)
    with dist a show "count_list (releases (heap s) xs) (FreeMouse a) = 1"
      by (rule count_releases_once)
  qed
  have c9: "\<forall>a\<in>set xs. \<forall>mr. heap s a = Some mr \<longrightarrow> Ungrab (m_dev mr) \<in> set (releases (heap s) xs)"
    by (blast intro: ungrab_in_releases)
  show ?thesis
    by (rule exI [of _ s1], rule exI [of _ s']) (intro conjI s(1) s(2) s(3) c4 s(5) s(6) s(7) c8 c9)
qed

theorem shutdown_sweeps_every_mouse_witness:
  "mouse_list (heap ((two_mice 0 4)\<lparr>stopped := True\<rparr>)) (mice ((two_mice 0 4)\<lparr>stopped := True\<rparr>)) [1, 2]
   \<and> stopped ((two_mice 0 4)\<lparr>stopped := True\<rparr>)
   \<and> (\<exists>s'. main_loop [] ((two_mice 0 4)\<lparr>stopped := True\<rparr>) = Some s'
        \<and> mice s' = 0 \<and> heap s' 1 = None \<and> heap s' 2 = None
        \<and> trace s' = [Ungrab 21, FreeDev 21, Close 11, FreeMouse 1,
                       Ungrab 22, FreeDev 22, Close 12, FreeMouse 2])"
proof -
  let ?s = "(two_mice 0 4)\<lparr>stopped := True\<rparr>"
  have l: "mouse_list (heap ?s) (mice ?s) [1, 2]" using example_list [of 0 4] by simp
  have st: "stopped ?s" by simp
  from shutdown_sweeps_every_mouse [OF l st, of "[]"] obtain s' where
    "main_loop [] ?s = Some s'" "mice s' = 0" "\<forall>a\<in>set [1, 2]. heap s' a = None"
    "trace s' = trace ?s @ releases (heap ?s) [1, 2]"
    by blast
  then have "\<exists>s'. main_loop [] ?s = Some s'
        \<and> mice s' = 0 \<and> heap s' 1 = None \<and> heap s' 2 = None
        \<and> trace s' = [Ungrab 21, FreeDev 21, Close 11, FreeMouse 1,
                       Ungrab 22, FreeDev 22, Close 12, FreeMouse 2]"
    by (intro exI [of _ s']) (simp add: two_mice_def mouse_no_def releases_def release_calls_def)
  with l st show ?thesis by blast
qed

section \<open>The read loop and the sweep after it\<close>

lemma process_event_calls:
  assumes "heap s mouse = Some mr"
  shows "\<exists>st out. process_event mouse evt s =
            Some (s\<lparr>heap := (heap s)(mouse \<mapsto> mr\<lparr>m_state := st\<rparr>), trace := trace s @ out\<rparr>)
          \<and> st AND MOUSE_STATE_DEAD = m_state mr AND MOUSE_STATE_DEAD
          \<and> (\<forall>c\<in>set out. is_write (m_dev_uinput mr) c)"
proof -
  let ?st = "if evt_type evt = EV_KEY \<and> evt_code evt = BTN_MIDDLE
             then (if evt_value evt \<noteq> 0
                   then m_state mr OR MOUSE_STATE_SCROLLING
                   else m_state mr AND NOT MOUSE_STATE_SCROLLING)
             else m_state mr"
  let ?out = "if ?st AND MOUSE_STATE_SCROLLING \<noteq> 0
              then (if evt_type evt = EV_REL \<and> evt_code evt = REL_Y
                    then [UinputWrite (m_dev_uinput mr) EV_REL REL_WHEEL_HI_RES (- evt_value evt * 2)]
                    else [])
              else [UinputWrite (m_dev_uinput mr) (evt_type evt) (evt_code evt) (evt_value evt)]"
  have "process_event mouse evt s =
          Some (s\<lparr>heap := (heap s)(mouse \<mapsto> mr\<lparr>m_state := ?st\<rparr>), trace := trace s @ ?out\<rparr>)"
    using assms unfolding process_event_def Let_def by (simp del: mult_minus_left)
  moreover have "?st AND MOUSE_STATE_DEAD = m_state mr AND MOUSE_STATE_DEAD"
    by (simp add: dead_or_scrolling dead_and_not_scrolling)
  moreover have "\<forall>c\<in>set ?out. is_write (m_dev_uinput mr) c"
    by (simp add: is_write_def)
  ultimately show ?thesis by blast
qed

lemma read_events_spec:
  "heap s mouse = Some mr \<Longrightarrow> final_status rs = Some status \<Longrightarrow>
   \<exists>s1 st out. read_events mouse rs s = Some (status, s1)
     \<and> heap s1 = (heap s)(mouse \<mapsto> mr\<lparr>m_state := st\<rparr>)
     \<and> st AND MOUSE_STATE_DEAD = m_state mr AND MOUSE_STATE_DEAD
     \<and> trace s1 = trace s @ out \<and> (\<forall>c\<in>set out. is_write (m_dev_uinput mr) c)
     \<and> mice s1 = mice s \<and> stopped s1 = stopped s"
proof (induction rs arbitrary: s mr)
  case Nil
  then show ?case by simp
next
  case (Cons r rs)
  obtain st0 evt where r: "r = (st0, evt)" by (cases r)
  show ?case
  proof (cases "st0 < 0")
    case True
    with Cons.prems r have "read_events mouse (r # rs) s = Some (status, s)" by simp
    moreover have "heap s = (heap s)(mouse \<mapsto> mr\<lparr>m_state := m_state mr\<rparr>)"
      using Cons.prems(1) by (simp add: fun_upd_idem)
    ultimately show ?thesis
      by (intro exI [of _ s] exI [of _ "m_state mr"] exI [of _ "[]"]) simp
  next
    case False
    from process_event_calls [OF Cons.prems(1), of evt] obtain st1 out1 where
      p: "process_event mouse evt s =
            Some (s\<lparr>heap := (heap s)(mouse \<mapsto> mr\<lparr>m_state := st1\<rparr>), trace := trace s @ out1\<rparr>)"
        "st1 AND MOUSE_STATE_DEAD = m_state mr AND MOUSE_STATE_DEAD"
        "\<forall>c\<in>set out1. is_write (m_dev_uinput mr) c"
      by blast
    let ?s1 = "s\<lparr>heap := (heap s)(mouse \<mapsto> mr\<lparr>m_state := st1\<rparr>), trace := trace s @ out1\<rparr>"
    have h1: "heap ?s1 mouse = Some (mr\<lparr>m_state := st1\<rparr>)" by simp
    from Cons.prems(2) r False have fs: "final_status rs = Some status" by simp
    from Cons.IH [OF h1 fs] obtain s2 st out where
      s2: "read_events mouse rs ?s1 = Some (status, s2)"
        "heap s2 = (heap ?s1)(mouse \<mapsto> mr\<lparr>m_state := st1\<rparr>\<lparr>m_state := st\<rparr>)"
        "st AND MOUSE_STATE_DEAD = m_state (mr\<lparr>m_state := st1\<rparr>) AND MOUSE_STATE_DEAD"
        "trace s2 = trace ?s1 @ out" "\<forall>c\<in>set out. is_write (m_dev_uinput (mr\<lparr>m_state := st1\<rparr>)) c"
        "mice s2 = mice ?s1" "stopped s2 = stopped ?s1"
      by blast
    have "read_events mouse (r # rs) s = Some (status, s2)"
      using r False Cons.prems(1) p(1) s2(1) by simp
    moreover have "heap s2 = (heap s)(mouse \<mapsto> mr\<lparr>m_state := st\<rparr>)" using s2(2) by simp
    moreover have "st AND MOUSE_STATE_DEAD = m_state mr AND MOUSE_STATE_DEAD" using s2(3) p(2) by simp
    moreover have "trace s2 = trace s @ (out1 @ out)" using s2(4) by simp
    moreover have "\<forall>c\<in>set (out1 @ out). is_write (m_dev_uinput mr) c" using s2(5) p(3) by auto
    moreover have "mice s2 = mice s" "stopped s2 = stopped s" using s2(6,7) by simp_all
    ultimately show ?thesis by blast
  qed
qed

lemma is_write_poll_call: "is_write ui c \<Longrightarrow> is_poll_call c"
  by (cases c) (simp_all add: is_write_def is_poll_call_def)

lemma poll_from_null: "poll_from pending 0 s = Some s"
  by (subst poll_from.simps) simp

lemma poll_step:
  assumes "heap s a = Some mr" "a \<noteq> 0" "final_status (pending a) = Some st"
  shows "\<exists>s2 st2 out2. poll_from pending a s = poll_from pending (m_next mr) s2
     \<and> heap s2 = (heap s)(a \<mapsto> mr\<lparr>m_state := st2\<rparr>)
     \<and> (st2 AND MOUSE_STATE_DEAD \<noteq> 0 \<longleftrightarrow> m_state mr AND MOUSE_STATE_DEAD \<noteq> 0 \<or> st \<noteq> - EAGAIN)
     \<and> trace s2 = trace s @ out2
     \<and> (\<forall>c\<in>set out2. is_poll_call c)
     \<and> (st \<noteq> - EAGAIN \<longrightarrow> Msg (ReadFailed st) \<in> set out2)
     \<and> mice s2 = mice s \<and> stopped s2 = stopped s"
proof -
  from read_events_spec [OF assms(1,3)] obtain s1 st1 out1 where
    s1: "read_events a (pending a) s = Some (st, s1)"
      "heap s1 = (heap s)(a \<mapsto> mr\<lparr>m_state := st1\<rparr>)"
      "st1 AND MOUSE_STATE_DEAD = m_state mr AND MOUSE_STATE_DEAD"
      "trace s1 = trace s @ out1" "\<forall>c\<in>set out1. is_write (m_dev_uinput mr) c"
      "mice s1 = mice s" "stopped s1 = stopped s"
    by blast
  from s1(2) have h1: "heap s1 a = Some (mr\<lparr>m_state := st1\<rparr>)" by simp
  from s1(5) have w1: "\<forall>c\<in>set out1. is_poll_call c" by (blast intro: is_write_poll_call)
  show ?thesis
  proof (cases "st = - EAGAIN")
    case True
    have "poll_from pending a s = poll_from pending (m_next mr) s1"
      using assms(2) s1(1) h1 True by (subst poll_from.simps) simp
    with s1 w1 True show ?thesis by (intro exI [of _ s1] exI [of _ st1] exI [of _ out1]) simp
  next
    case False
    let ?s2 = "s1\<lparr>heap := (heap s1)(a \<mapsto> mr\<lparr>m_state := st1\<rparr>\<lparr>m_state := st1 OR MOUSE_STATE_DEAD\<rparr>),
                   trace := trace s1 @ [Msg (ReadFailed st)]\<rparr>"
    have "poll_from pending a s = poll_from pending (m_next mr) ?s2"
      using assms(2) s1(1) h1 False by (subst poll_from.simps) simp
    moreover have "heap ?s2 = (heap s)(a \<mapsto> mr\<lparr>m_state := st1 OR MOUSE_STATE_DEAD\<rparr>)"
      using s1(2) by simp
    moreover have "(st1 OR MOUSE_STATE_DEAD) AND MOUSE_STATE_DEAD \<noteq> 0" by (rule dead_or)
    moreover have "trace ?s2 = trace s @ (out1 @ [Msg (ReadFailed st)])" using s1(4) by simp
    moreover have "\<forall>c\<in>set (out1 @ [Msg (ReadFailed st)]). is_poll_call c"
      using w1 by (simp add: is_poll_call_def)
    moreover have "Msg (ReadFailed st) \<in> set (out1 @ [Msg (ReadFailed st)])" by simp
    moreover have "mice ?s2 = mice s" "stopped ?s2 = stopped s" using s1(6,7) by simp_all
    ultimately show ?thesis using False by blast
  qed
qed

lemma poll_from_spec:
  assumes "mouse_list (heap s) p rest" "\<forall>b\<in>set rest. final_status (pending b) \<noteq> None"
  shows "\<exists>s1 out. poll_from pending p s = Some s1
     \<and> mice s1 = mice s \<and> stopped s1 = stopped s
     \<and> (\<forall>b. map_option links (heap s1 b) = map_option links (heap s b))
     \<and> (\<forall>b. b \<notin> set rest \<longrightarrow> heap s1 b = heap s b)
     \<and> (\<forall>b\<in>set rest. is_dead (heap s1) b \<longleftrightarrow> dead_after pending (heap s) b)
     \<and> trace s1 = trace s @ out
     \<and> (\<forall>c\<in>set out. is_poll_call c)
     \<and> (\<forall>b\<in>set rest. \<forall>st. final_status (pending b) = Some st \<and> st \<noteq> - EAGAIN \<longrightarrow>
           Msg (ReadFailed st) \<in> set out)"
  using assms
proof (induction rest arbitrary: s p)
  case Nil
  then show ?case by (simp add: poll_from_null)
next
  case (Cons a as)
  from Cons.prems(1) obtain mr where mr: "p = a" "a \<noteq> 0" "heap s a = Some mr" "mouse_list (heap s) (m_next mr) as"
    by auto
  from Cons.prems(1) have a_as: "a \<notin> set as" by (rule mouse_list_head_notin_tail)
  from Cons.prems(2) obtain st where st: "final_status (pending a) = Some st" by auto
  from poll_step [of s a mr pending st, OF mr(3,2) st] obtain s2 st2 out2 where
    s2: "poll_from pending a s = poll_from pending (m_next mr) s2"
      "heap s2 = (heap s)(a \<mapsto> mr\<lparr>m_state := st2\<rparr>)"
      "st2 AND MOUSE_STATE_DEAD \<noteq> 0 \<longleftrightarrow> m_state mr AND MOUSE_STATE_DEAD \<noteq> 0 \<or> st \<noteq> - EAGAIN"
      "trace s2 = trace s @ out2"
      "\<forall>c\<in>set out2. is_poll_call c"
      "st \<noteq> - EAGAIN \<longrightarrow> Msg (ReadFailed st) \<in> set out2"
      "mice s2 = mice s" "stopped s2 = stopped s"
    by blast
  have l2: "mouse_list (heap s2) (m_next mr) as"
    using mr(4) a_as s2(2) by (simp add: mouse_list_update_other)
  from Cons.prems(2) have fin: "\<forall>b\<in>set as. final_status (pending b) \<noteq> None" by simp
  from Cons.IH [OF l2 fin] obtain s1 out where
    s1: "poll_from pending (m_next mr) s2 = Some s1"
      "mice s1 = mice s2" "stopped s1 = stopped s2"
      "\<forall>b. map_option links (heap s1 b) = map_option links (heap s2 b)"
      "\<forall>b. b \<notin> set as \<longrightarrow> heap s1 b = heap s2 b"
      "\<forall>b\<in>set as. is_dead (heap s1) b \<longleftrightarrow> dead_after pending (heap s2) b"
      "trace s1 = trace s2 @ out"
      "\<forall>c\<in>set out. is_poll_call c"
      "\<forall>b\<in>set as. \<forall>st. final_status (pending b) = Some st \<and> st \<noteq> - EAGAIN \<longrightarrow>
           Msg (ReadFailed st) \<in> set out"
    by blast
  have c1: "poll_from pending p s = Some s1" using mr(1) s2(1) s1(1) by simp
  have c2: "mice s1 = mice s" "stopped s1 = stopped s" using s1(2,3) s2(7,8) by simp_all
  have c3: "\<forall>b. map_option links (heap s1 b) = map_option links (heap s b)"
    using s1(4) s2(2) mr(3) by (simp add: links_def)
  have c4: "\<forall>b. b \<notin> set (a # as) \<longrightarrow> heap s1 b = heap s b"
    using s1(5) s2(2) by simp
  have a1: "heap s1 a = Some (mr\<lparr>m_state := st2\<rparr>)" using s1(5) a_as s2(2) by simp
  have c5: "\<forall>b\<in>set (a # as). is_dead (heap s1) b \<longleftrightarrow> dead_after pending (heap s) b"
  proof
    fix b assume b: "b \<in> set (a # as)"
    show "is_dead (heap s1) b \<longleftrightarrow> dead_after pending (heap s) b"
    proof (cases "b = a")
      case True
      with a1 s2(3) mr(3) st show ?thesis by (simp add: is_dead_def dead_after_def)
    next
      case False
      with b have "b \<in> set as" by simp
      with s1(6) have "is_dead (heap s1) b \<longleftrightarrow> dead_after pending (heap s2) b" by blast
      also have "\<dots> \<longleftrightarrow> dead_after pending (heap s) b"
        using False s2(2) by (simp add: dead_after_def is_dead_def)
      finally show ?thesis .
    qed
  qed
  have c6: "trace s1 = trace s @ (out2 @ out)" using s1(7) s2(4) by simp
  have c7: "\<forall>c\<in>set (out2 @ out). is_poll_call c" using s1(8) s2(5) by auto
  have c8: "\<forall>b\<in>set (a # as). \<forall>st. final_status (pending b) = Some st \<and> st \<noteq> - EAGAIN \<longrightarrow>
           Msg (ReadFailed st) \<in> set (out2 @ out)"
    using s1(9) s2(6) st by auto
  from c1 c2 c3 c4 c5 c6 c7 c8 show ?case by blast
qed

lemma links_next: "map_option links (h' b) = map_option links (h b) \<Longrightarrow> map_option m_next (h' b) = map_option m_next (h b)"
  by (cases "h b"; cases "h' b") (auto simp add: links_def)

lemma links_fd_dev:
  "map_option links (h' b) = map_option links (h b) \<Longrightarrow>
   map_option (\<lambda>r. (m_fd r, m_dev r)) (h' b) = map_option (\<lambda>r. (m_fd r, m_dev r)) (h b)"
  by (cases "h b"; cases "h' b") (auto simp add: links_def)

lemma no_destroy_in_releases: "UinputDestroy u \<notin> set (releases h xs)"
  by (induction xs) (auto simp add: releases_def release_calls_def split: option.splits)

lemma no_destroy_in_poll: "\<forall>c\<in>set out. is_poll_call c \<Longrightarrow> UinputDestroy u \<notin> set out"
  by (auto simp add: is_poll_call_def)

lemma poll_and_sweep_spec:
  assumes "mouse_list (heap s) (mice s) xs" "\<forall>b\<in>set xs. final_status (pending b) \<noteq> None"
  shows "\<exists>s1 s' out. poll_from pending (mice s) s = Some s1
     \<and> (\<forall>b\<in>set xs. is_dead (heap s1) b \<longleftrightarrow> dead_after pending (heap s) b)
     \<and> poll_and_sweep pending s = Some s'
     \<and> mouse_list (heap s') (mice s') (filter (\<lambda>b. \<not> dead_after pending (heap s) b) xs)
     \<and> trace s' = trace s @ out @ releases (heap s) (filter (dead_after pending (heap s)) xs)
     \<and> (\<forall>c\<in>set out. is_poll_call c)
     \<and> (\<forall>b\<in>set xs. \<forall>st. final_status (pending b) = Some st \<and> st \<noteq> - EAGAIN \<longrightarrow>
           Msg (ReadFailed st) \<in> set out)
     \<and> (\<forall>b\<in>set xs. dead_after pending (heap s) b \<longrightarrow> heap s' b = None)
     \<and> (\<forall>b\<in>set xs. \<not> dead_after pending (heap s) b \<longrightarrow> \<not> is_dead (heap s') b)
     \<and> stopped s' = stopped s"
proof -
  from poll_from_spec [OF assms] obtain s1 out where
    s1: "poll_from pending (mice s) s = Some s1"
      "mice s1 = mice s" "stopped s1 = stopped s"
      "\<forall>b. map_option links (heap s1 b) = map_option links (heap s b)"
      "\<forall>b\<in>set xs. is_dead (heap s1) b \<longleftrightarrow> dead_after pending (heap s) b"
      "trace s1 = trace s @ out"
      "\<forall>c\<in>set out. is_poll_call c"
      "\<forall>b\<in>set xs. \<forall>st. final_status (pending b) = Some st \<and> st \<noteq> - EAGAIN \<longrightarrow>
           Msg (ReadFailed st) \<in> set out"
    by blast
  have "mouse_list (heap s1) (mice s) xs = mouse_list (heap s) (mice s) xs"
    by (rule mouse_list_cong, rule links_next) (simp add: s1(4))
  with assms(1) s1(2) have l1: "mouse_list (heap s1) (mice s1) ([] @ xs)" by simp
  then have "mice s1 = (case xs of [] \<Rightarrow> 0 | a # _ \<Rightarrow> a)" by (simp add: mouse_list_head)
  from sweep_from_spec [OF l1 this] obtain s' where
    s': "sweep_from (mice s1) s1 = Some s'"
      "mouse_list (heap s') (mice s') ([] @ filter (\<lambda>b. \<not> is_dead (heap s1) b) xs)"
      "trace s' = trace s1 @ releases (heap s1) (filter (is_dead (heap s1)) xs)"
      "\<forall>b. b \<in> set xs \<and> is_dead (heap s1) b \<longrightarrow> heap s' b = None"
      "\<forall>b. \<not> (b \<in> set xs \<and> is_dead (heap s1) b) \<longrightarrow>
           map_option payload (heap s' b) = map_option payload (heap s1 b)"
      "stopped s' = stopped s1"
    by blast
  have f1: "filter (\<lambda>b. \<not> is_dead (heap s1) b) xs = filter (\<lambda>b. \<not> dead_after pending (heap s) b) xs"
    using s1(5) by (intro filter_cong) auto
  have f2: "filter (is_dead (heap s1)) xs = filter (dead_after pending (heap s)) xs"
    using s1(5) by (intro filter_cong) auto
  have f3: "releases (heap s1) ys = releases (heap s) ys" for ys
    by (rule releases_cong, rule links_fd_dev) (simp add: s1(4))
  have c1: "poll_and_sweep pending s = Some s'"
    using s1(1) s'(1) by (simp add: poll_and_sweep_def unregister_dead_mice_def)
  have c2: "mouse_list (heap s') (mice s') (filter (\<lambda>b. \<not> dead_after pending (heap s) b) xs)"
    using s'(2) f1 by simp
  have c3: "trace s' = trace s @ out @ releases (heap s) (filter (dead_after pending (heap s)) xs)"
    using s'(3) s1(6) f2 f3 by simp
  have c4: "\<forall>b\<in>set xs. dead_after pending (heap s) b \<longrightarrow> heap s' b = None"
    using s'(4) s1(5) by blast
  have c5: "\<forall>b\<in>set xs. \<not> dead_after pending (heap s) b \<longrightarrow> \<not> is_dead (heap s') b"
  proof (intro ballI impI)
    fix b assume b: "b \<in> set xs" "\<not> dead_after pending (heap s) b"
    with s1(5) have nd: "\<not> is_dead (heap s1) b" by blast
    with s'(5) have "map_option payload (heap s' b) = map_option payload (heap s1 b)" by blast
    then have "is_dead (heap s') b = is_dead (heap s1) b" by (rule payload_eq_dead)
    with nd show "\<not> is_dead (heap s') b" by simp
  qed
  have c6: "stopped s' = stopped s" using s'(6) s1(3) by simp
  show ?thesis
    by (rule exI [of _ s1], rule exI [of _ s'], rule exI [of _ out])
      (intro conjI s1(1) s1(5) c1 c2 c3 s1(7) s1(8) c4 c5 c6)
qed


text \<open>
  Claim C7, as the code has it. When the reading of every mouse ends, the part of an
  iteration that reads and then sweeps returns. A mouse whose reads end with a status other than
  \<open>-EAGAIN\<close> has that status printed and is gone from the registry afterwards, its
  record freed, after the calls that give up the grab, free the device descriptor and
  close the file descriptor; no call of the iteration destroys a sink. A mouse that was
  not dead and whose reads end with \<open>-EAGAIN\<close> stays registered and is not marked dead.
\<close>

theorem failed_read_removes_mouse:
  assumes "mouse_list (heap s) (mice s) xs" "\<forall>b\<in>set xs. final_status (pending b) \<noteq> None"
    "a \<in> set xs" "heap s a = Some mr"
  shows "\<exists>s1 s' ys out. poll_from pending (mice s) s = Some s1
       \<and> poll_and_sweep pending s = Some s'
       \<and> mouse_list (heap s') (mice s') ys
       \<and> trace s' = trace s @ out
       \<and> (\<forall>u. UinputDestroy u \<notin> set out)
       \<and> (\<forall>st. final_status (pending a) = Some st \<and> st \<noteq> - EAGAIN \<longrightarrow>
             is_dead (heap s1) a \<and> a \<notin> set ys \<and> heap s' a = None
             \<and> (\<exists>pre post. out = pre @ release_calls a mr @ post \<and> Msg (ReadFailed st) \<in> set pre))
       \<and> (final_status (pending a) = Some (- EAGAIN) \<and> \<not> is_dead (heap s) a \<longrightarrow>
             \<not> is_dead (heap s1) a \<and> a \<in> set ys \<and> \<not> is_dead (heap s') a)"
proof -
  let ?dead = "filter (dead_after pending (heap s)) xs"
  let ?ys = "filter (\<lambda>b. \<not> dead_after pending (heap s) b) xs"
  from poll_and_sweep_spec [OF assms(1,2)] obtain s1 s' out where
    s1: "poll_from pending (mice s) s = Some s1"
      "\<forall>b\<in>set xs. is_dead (heap s1) b \<longleftrightarrow> dead_after pending (heap s) b"
    and s': "poll_and_sweep pending s = Some s'"
      "mouse_list (heap s') (mice s') ?ys"
      "trace s' = trace s @ out @ releases (heap s) ?dead"
      "\<forall>c\<in>set out. is_poll_call c"
      "\<forall>b\<in>set xs. \<forall>st. final_status (pending b) = Some st \<and> st \<noteq> - EAGAIN \<longrightarrow>
           Msg (ReadFailed st) \<in> set out"
      "\<forall>b\<in>set xs. dead_after pending (heap s) b \<longrightarrow> heap s' b = None"
      "\<forall>b\<in>set xs. \<not> dead_after pending (heap s) b \<longrightarrow> \<not> is_dead (heap s') b"
    by blast
  let ?out = "out @ releases (heap s) ?dead"
  have c3: "trace s' = trace s @ ?out" using s'(3) by simp
  have c4: "\<forall>u. UinputDestroy u \<notin> set ?out"
    using no_destroy_in_poll [OF s'(4)] no_destroy_in_releases by simp
  have c5: "\<forall>st. final_status (pending a) = Some st \<and> st \<noteq> - EAGAIN \<longrightarrow>
             is_dead (heap s1) a \<and> a \<notin> set ?ys \<and> heap s' a = None
             \<and> (\<exists>pre post. ?out = pre @ release_calls a mr @ post \<and> Msg (ReadFailed st) \<in> set pre)"
  proof (intro allI impI)
    fix st assume st: "final_status (pending a) = Some st \<and> st \<noteq> - EAGAIN"
    then have d: "dead_after pending (heap s) a" by (auto simp add: dead_after_def)
    with assms(3) have "a \<in> set ?dead" by simp
    from releases_contain [of a ?dead "heap s" mr, OF this assms(4)] obtain pre post where
      "releases (heap s) ?dead = pre @ release_calls a mr @ post" by blast
    then have "?out = (out @ pre) @ release_calls a mr @ post" by simp
    moreover from s'(5) assms(3) st have "Msg (ReadFailed st) \<in> set (out @ pre)" by auto
    ultimately have "\<exists>pre post. ?out = pre @ release_calls a mr @ post \<and> Msg (ReadFailed st) \<in> set pre"
      by blast
    moreover from d have "a \<notin> set ?ys" by simp
    moreover from s'(6) assms(3) d have "heap s' a = None" by blast
    moreover from s1(2) assms(3) d have "is_dead (heap s1) a" by blast
    ultimately show "is_dead (heap s1) a \<and> a \<notin> set ?ys \<and> heap s' a = None
             \<and> (\<exists>pre post. ?out = pre @ release_calls a mr @ post \<and> Msg (ReadFailed st) \<in> set pre)"
      by blast
  qed
  have c6: "final_status (pending a) = Some (- EAGAIN) \<and> \<not> is_dead (heap s) a \<longrightarrow>
             \<not> is_dead (heap s1) a \<and> a \<in> set ?ys \<and> \<not> is_dead (heap s') a"
  proof
    assume "final_status (pending a) = Some (- EAGAIN) \<and> \<not> is_dead (heap s) a"
    then have "\<not> dead_after pending (heap s) a" by (simp add: dead_after_def)
    with assms(3) s'(7) s1(2) show "\<not> is_dead (heap s1) a \<and> a \<in> set ?ys \<and> \<not> is_dead (heap s') a"
      by simp
  qed
  show ?thesis
    by (rule exI [of _ s1], rule exI [of _ s'], rule exI [of _ ?ys], rule exI [of _ ?out])
      (intro conjI s1(1) s'(1) s'(2) c3 c4 c5 c6)
qed

theorem failed_read_removes_mouse_witness:
  "(\<exists>s1 s' ys out. poll_from example_pending (mice (two_mice 0 0)) (two_mice 0 0) = Some s1
       \<and> poll_and_sweep example_pending (two_mice 0 0) = Some s'
       \<and> mouse_list (heap s') (mice s') ys
       \<and> trace s' = out
       \<and> is_dead (heap s1) 1 \<and> 1 \<notin> set ys \<and> heap s' 1 = None
       \<and> (\<exists>pre post. out = pre @ [Ungrab 21, FreeDev 21, Close 11, FreeMouse 1] @ post
             \<and> Msg (ReadFailed (- 19)) \<in> set pre))
   \<and> (\<exists>s' ys. poll_and_sweep example_pending (two_mice 0 0) = Some s'
       \<and> mouse_list (heap s') (mice s') ys
       \<and> 2 \<in> set ys \<and> \<not> is_dead (heap s') 2)"
proof -
  have fin: "\<forall>b\<in>set [1, 2]. final_status (example_pending b) \<noteq> None"
    by (simp add: example_pending_def)
  have h1: "heap (two_mice 0 0) 1 = Some (mouse_no 1 0 2)" by (simp add: two_mice_def)
  have h2: "heap (two_mice 0 0) 2 = Some (mouse_no 2 0 0)" by (simp add: two_mice_def)
  have f1: "final_status (example_pending 1) = Some (- 19) \<and> (- 19 :: int) \<noteq> - EAGAIN"
    by (simp add: example_pending_def EAGAIN_def)
  have f2: "final_status (example_pending 2) = Some (- EAGAIN) \<and> \<not> is_dead (heap (two_mice 0 0)) 2"
    by (simp add: example_pending_def EAGAIN_def is_dead_def two_mice_def mouse_no_def)
  have r: "release_calls 1 (mouse_no 1 0 2) = [Ungrab 21, FreeDev 21, Close 11, FreeMouse 1]"
    by (simp add: release_calls_def mouse_no_def)
  have t: "trace (two_mice 0 0) = []" by (simp add: two_mice_def)
  from failed_read_removes_mouse [OF example_list fin _ h1] f1 r t
  have "\<exists>s1 s' ys out. poll_from example_pending (mice (two_mice 0 0)) (two_mice 0 0) = Some s1
       \<and> poll_and_sweep example_pending (two_mice 0 0) = Some s'
       \<and> mouse_list (heap s') (mice s') ys
       \<and> trace s' = out
       \<and> is_dead (heap s1) 1 \<and> 1 \<notin> set ys \<and> heap s' 1 = None
       \<and> (\<exists>pre post. out = pre @ [Ungrab 21, FreeDev 21, Close 11, FreeMouse 1] @ post
             \<and> Msg (ReadFailed (- 19)) \<in> set pre)"
    by simp blast
  moreover from failed_read_removes_mouse [OF example_list fin _ h2] f2
  have "\<exists>s' ys. poll_and_sweep example_pending (two_mice 0 0) = Some s'
       \<and> mouse_list (heap s') (mice s') ys
       \<and> 2 \<in> set ys \<and> \<not> is_dead (heap s') 2"
    by simp blast
  ultimately show ?thesis by blast
qed

text \<open>
  One iteration over two mice, the first failing with status -19 after one motion event:
  the first mouse is unlinked and released, and its sink (handle 31) is not destroyed.
\<close>

theorem unread_sink_survives_removal:
  "map_option trace (poll_and_sweep example_pending (two_mice 0 0)) =
     Some [UinputWrite 31 EV_REL REL_Y 5, Msg (ReadFailed (- 19)),
           Ungrab 21, FreeDev 21, Close 11, FreeMouse 1]
   \<and> map_option mice (poll_and_sweep example_pending (two_mice 0 0)) = Some 2
   \<and> UinputDestroy 31 \<notin> set
         [UinputWrite 31 EV_REL REL_Y 5, Msg (ReadFailed (- 19)),
           Ungrab 21, FreeDev 21, Close 11, FreeMouse 1]"
  by (simp add: poll_and_sweep_def unregister_dead_mice_def example_pending_def two_mice_def
      mouse_no_def motion_def poll_from.simps sweep_from.simps unlink_from.simps
      unregister_mouse_def process_event_def EAGAIN_def
      MOUSE_STATE_DEAD_def MOUSE_STATE_SCROLLING_def EV_KEY_def EV_REL_def)

end
